theory Spec2Isabelle
  imports Complex_Main "HOL-Library.Sublist" "HOL-Library.Word" "HOL-Library.Log_Nat"
begin

section \<open>The MLX vision sidecar: cache, fast path, response parsing, endpoints\<close>

text \<open>
  A shallow embedding of \<^verbatim>\<open>server/scripts/mlx_vision_server.py\<close>. Module globals
  become fields of \<open>server_state\<close>, every function that touches them takes the state and
  returns the new one, and every exception is a value. Python's \<^verbatim>\<open>None\<close> and JSON
  \<^verbatim>\<open>null\<close> are the same value \<open>JNull\<close>, as they are after \<^verbatim>\<open>json.loads\<close>.

  A Python string is the list of its Unicode code points. A float is carried as the
  rational number it denotes; the two float operations of the module, the division and
  the rounding in \<^verbatim>\<open>health\<close>, are modelled in IEEE 754 double precision.
\<close>

subsection \<open>Python values and exceptions\<close>

text \<open>A string is a list of code points, each a natural number; a string literal of the
  source that is pure ASCII is written with \<open>lit\<close>, which maps each character to its code
  point.\<close>

type_synonym str = "nat list"

definition lit :: "string \<Rightarrow> str" where
  "lit s = map of_char s"

text \<open>The exceptions that occur. \<open>ModelError\<close> stands for whatever
  \<^verbatim>\<open>_generate_from_image\<close> raises. An \<open>Uncaught\<close> exception leaves the handler and is
  answered by the framework with HTTP 500.\<close>

datatype py_error =
    KeyError | IndexError | AttributeError | ZeroDivisionError | OverflowError
  | JSONDecodeError | RecursionError | ValueError | OSError | ModelError

datatype error = HTTPException nat str | Uncaught py_error

datatype pyfloat = Finite rat | NaN | PosInf | NegInf

datatype json =
    JNull
  | JBool bool
  | JInt int
  | JFloat pyfloat
  | JStr str
  | JArr "json list"
  | JObj "(str \<times> json) list"

type_synonym bytes = "8 word list"

text \<open>Truth value testing, as \<^verbatim>\<open>if x\<close>, \<^verbatim>\<open>not x\<close> and \<^verbatim>\<open>x or y\<close> apply it.\<close>

fun truthy :: "json \<Rightarrow> bool" where
  "truthy JNull = False"
| "truthy (JBool b) = b"
| "truthy (JInt i) = (i \<noteq> 0)"
| "truthy (JFloat f) = (f \<noteq> Finite 0)"
| "truthy (JStr s) = (s \<noteq> [])"
| "truthy (JArr xs) = (xs \<noteq> [])"
| "truthy (JObj kvs) = (kvs \<noteq> [])"

text \<open>\<^verbatim>\<open>d.get(k, default)\<close> and \<^verbatim>\<open>d[k] = v\<close> on an insertion-ordered dict: an
  existing key keeps its place, a new key goes last.\<close>

definition dict_get :: "(str \<times> json) list \<Rightarrow> str \<Rightarrow> json \<Rightarrow> json" where
  "dict_get d k dflt = (case map_of d k of None \<Rightarrow> dflt | Some v \<Rightarrow> v)"

fun dict_set :: "(str \<times> 'v) list \<Rightarrow> str \<Rightarrow> 'v \<Rightarrow> (str \<times> 'v) list" where
  "dict_set [] k v = [(k, v)]"
| "dict_set (p # ps) k v = (if fst p = k then (k, v) # ps else p # dict_set ps k v)"

fun bind :: "'e + 'a \<Rightarrow> ('a \<Rightarrow> 'e + 'b) \<Rightarrow> 'e + 'b" where
  "bind (Inl e) f = Inl e"
| "bind (Inr x) f = f x"

subsection \<open>String operations\<close>

text \<open>The code points for which \<^verbatim>\<open>str.isspace\<close> holds, which are the ones
  \<^verbatim>\<open>str.strip()\<close> removes: the ASCII ones (tab to carriage return, the separators
  0x1C to 0x1F, space) and NEL, the no-break space, the Ogham space mark, the spaces
  U+2000 to U+200A, the line and paragraph separators, the narrow no-break space, the
  medium mathematical space and the ideographic space.\<close>

definition is_space :: "nat \<Rightarrow> bool" where
  "is_space c =
     ((0x09 \<le> c \<and> c \<le> 0x0D) \<or> (0x1C \<le> c \<and> c \<le> 0x20) \<or> c = 0x85 \<or> c = 0xA0
      \<or> c = 0x1680 \<or> (0x2000 \<le> c \<and> c \<le> 0x200A) \<or> c = 0x2028 \<or> c = 0x2029
      \<or> c = 0x202F \<or> c = 0x205F \<or> c = 0x3000)"

definition strip :: "str \<Rightarrow> str" where
  "strip s = rev (dropWhile is_space (rev (dropWhile is_space s)))"

text \<open>\<^verbatim>\<open>text.split(sep)\<close>: the pieces between the occurrences of \<open>sep\<close> found scanning
  from the left, each search starting where the previous occurrence ended. Python raises
  ValueError for an empty separator; every call in the source passes a non-empty literal.\<close>

fun split_aux :: "str \<Rightarrow> str \<Rightarrow> str \<Rightarrow> str list" where
  "split_aux sep acc [] = [rev acc]"
| "split_aux sep acc (c # cs) =
     (if prefix sep (c # cs) then rev acc # split_aux sep [] (drop (length sep - 1) cs)
      else split_aux sep (c # acc) cs)"

definition py_split :: "str \<Rightarrow> str \<Rightarrow> str list" where
  "py_split sep s = split_aux sep [] s"

fun py_join :: "str \<Rightarrow> str list \<Rightarrow> str" where
  "py_join sep [] = []"
| "py_join sep [x] = x"
| "py_join sep (x # y # ys) = x @ sep @ py_join sep (y # ys)"

definition py_replace :: "str \<Rightarrow> str \<Rightarrow> str \<Rightarrow> str" where
  "py_replace old new s = py_join new (py_split old s)"

text \<open>\<^verbatim>\<open>xs[i]\<close>: a negative index counts from the end, and an index outside the list
  raises IndexError.\<close>

definition py_index :: "'a list \<Rightarrow> int \<Rightarrow> py_error + 'a" where
  "py_index xs i =
     (if 0 \<le> i \<and> i < int (length xs) then Inr (xs ! nat i)
      else if i < 0 \<and> - int (length xs) \<le> i then Inr (xs ! nat (int (length xs) + i))
      else Inl IndexError)"

subsection \<open>State, configuration and collaborators\<close>

record stats =
  generation_time_s :: rat
  tokens_per_second :: "rat option"
  peak_memory_gb :: "rat option"

text \<open>What \<^verbatim>\<open>_generate_from_image\<close> returns; \<open>raw_text_of\<close> is its key
  \<^verbatim>\<open>"text"\<close>.\<close>

record raw_output =
  raw_text_of :: str
  raw_generation_time_s :: rat
  raw_tokens_per_second :: "rat option"
  raw_peak_memory_gb :: "rat option"

text \<open>The \<^verbatim>\<open>result\<close> dict of \<^verbatim>\<open>extract\<close>, which is also the cached value, and the
  response, which adds the two keys \<^verbatim>\<open>cache\<close> and \<^verbatim>\<open>content_hash\<close>.\<close>

record result =
  status :: str
  extraction :: json
  raw_text :: str
  stats :: stats

record response = result +
  cache :: str
  content_hash :: str

record extract_request =
  image :: str
  mime_type :: str
  prompt :: "str option"
  max_tokens :: int

text \<open>The module globals. \<open>content_cache\<close> is the OrderedDict, oldest entry first. The
  three counters start at 0 and are only ever incremented, so they are natural numbers.
  \<open>model_calls\<close> is a ghost counter: the number of calls of \<^verbatim>\<open>_generate_from_image\<close>
  made so far.\<close>

record server_state =
  model_loaded :: bool
  load_time :: rat
  content_cache :: "(str \<times> result) list"
  cache_hits :: nat
  cache_misses :: nat
  fast_path_hits :: nat
  model_calls :: nat

text \<open>The values read from the environment at import time, the prompt constant, and the
  library and model functions the module calls.
  \<^item> \<open>b64decode\<close> returns \<open>None\<close> where \<^verbatim>\<open>base64.b64decode\<close> raises.
  \<^item> \<open>json_loads\<close> returns the decoded value or the exception \<^verbatim>\<open>json.loads\<close> raises:
    JSONDecodeError for text that is not JSON, but also RecursionError (nesting too deep)
    or a plain ValueError (an integer literal with too many digits).
  \<^item> \<open>unicode_lower\<close> is \<^verbatim>\<open>str.lower\<close> on a string that is not pure ASCII.
  \<^item> \<open>write_temp_file\<close> stands for lines 350 to 352: it creates the named temporary
    file with the given suffix, writes the bytes and returns the path, or raises.
  \<^item> \<open>unlink\<close> is \<^verbatim>\<open>os.unlink\<close>, returning the exception if it raises.
  \<^item> \<open>generate_from_image\<close> stands for \<^verbatim>\<open>_generate_from_image\<close>; besides the path,
    the prompt and the token limit it is given the content of the file, and it returns
    \<open>None\<close> where the model raises.

  The last three take the number of earlier model calls as their first argument: neither
  the model nor the file system need answer the same way on a later request.\<close>

record collaborators =
  MODEL_ID :: str
  MAX_CACHE_SIZE :: int
  EXTRACT_SYSTEM_PROMPT :: str
  sha256 :: "bytes \<Rightarrow> str"
  b64decode :: "str \<Rightarrow> bytes option"
  json_loads :: "str \<Rightarrow> py_error + json"
  unicode_lower :: "str \<Rightarrow> str"
  write_temp_file :: "nat \<Rightarrow> str \<Rightarrow> bytes \<Rightarrow> py_error + str"
  unlink :: "nat \<Rightarrow> str \<Rightarrow> py_error option"
  generate_from_image :: "nat \<Rightarrow> str \<Rightarrow> bytes \<Rightarrow> str \<Rightarrow> int \<Rightarrow> raw_output option"

text \<open>\<^verbatim>\<open>str.lower\<close>. On a pure ASCII string it maps the letters A to Z to a to z and
  leaves every other character alone. On any other string it follows the Unicode case
  mapping, which is not written out here: it is left to \<open>unicode_lower\<close>.\<close>

definition ascii_lower :: "nat \<Rightarrow> nat" where
  "ascii_lower c = (if 0x41 \<le> c \<and> c \<le> 0x5A then c + 0x20 else c)"

definition lower :: "collaborators \<Rightarrow> str \<Rightarrow> str" where
  "lower env s = (if list_all (\<lambda>c. c < 0x80) s then map ascii_lower s else unicode_lower env s)"

subsection \<open>The content cache\<close>

text \<open>\<^verbatim>\<open>OrderedDict.move_to_end(key)\<close>; both calls in the source hold the key.\<close>

definition move_to_end :: "str \<Rightarrow> (str \<times> 'v) list \<Rightarrow> (str \<times> 'v) list" where
  "move_to_end key c =
     (case map_of c key of
        None \<Rightarrow> c
      | Some v \<Rightarrow> filter (\<lambda>p. fst p \<noteq> key) c @ [(key, v)])"

definition cache_get :: "str \<Rightarrow> server_state \<Rightarrow> result option \<times> server_state" where
  "cache_get key s =
     (case map_of (content_cache s) key of
        Some v \<Rightarrow>
          (Some v, s\<lparr>content_cache := move_to_end key (content_cache s),
                     cache_hits := cache_hits s + 1\<rparr>)
      | None \<Rightarrow> (None, s))"

text \<open>The eviction loop: \<^verbatim>\<open>popitem(last=False)\<close> removes the oldest entry and raises
  KeyError on an empty dict.\<close>

fun evict :: "int \<Rightarrow> (str \<times> 'v) list \<Rightarrow> py_error option \<times> (str \<times> 'v) list" where
  "evict cap [] = (if 0 > cap then (Some KeyError, []) else (None, []))"
| "evict cap (p # ps) =
     (if int (length (p # ps)) > cap then evict cap ps else (None, p # ps))"

definition cache_put ::
  "collaborators \<Rightarrow> str \<Rightarrow> result \<Rightarrow> server_state \<Rightarrow> py_error option \<times> server_state" where
  "cache_put env key v s =
     (let s1 = s\<lparr>cache_misses := cache_misses s + 1\<rparr>;
          c1 = dict_set (content_cache s1) key v;
          c2 = move_to_end key c1
      in case evict (MAX_CACHE_SIZE env) c2 of
           (e, c3) \<Rightarrow> (e, s1\<lparr>content_cache := c3\<rparr>))"

subsection \<open>Fast-path merchant recognition\<close>

record meta =
  merchant :: str
  category :: str
  currency :: str

definition Servicos :: str where
  "Servicos = lit ''Servi'' @ [0xE7] @ lit ''os''"

definition Vestuario :: str where
  "Vestuario = lit ''Vestu'' @ [0xE1] @ lit ''rio''"

definition FAST_PATH_MERCHANTS :: "(str \<times> meta) list" where
  "FAST_PATH_MERCHANTS =
    [(lit ''pingo doce'', \<lparr>merchant = lit ''Pingo Doce'', category = lit ''Supermercado'', currency = lit ''EUR''\<rparr>),
     (lit ''continente'', \<lparr>merchant = lit ''Continente'', category = lit ''Supermercado'', currency = lit ''EUR''\<rparr>),
     (lit ''lidl'', \<lparr>merchant = lit ''Lidl'', category = lit ''Supermercado'', currency = lit ''EUR''\<rparr>),
     (lit ''aldi'', \<lparr>merchant = lit ''Aldi'', category = lit ''Supermercado'', currency = lit ''EUR''\<rparr>),
     (lit ''mercadona'', \<lparr>merchant = lit ''Mercadona'', category = lit ''Supermercado'', currency = lit ''EUR''\<rparr>),
     (lit ''edp'', \<lparr>merchant = lit ''EDP'', category = Servicos, currency = lit ''EUR''\<rparr>),
     (lit ''galp'', \<lparr>merchant = lit ''Galp'', category = lit ''Transportes'', currency = lit ''EUR''\<rparr>),
     (lit ''meo'', \<lparr>merchant = lit ''MEO'', category = Servicos, currency = lit ''EUR''\<rparr>),
     (lit ''vodafone'', \<lparr>merchant = lit ''Vodafone'', category = Servicos, currency = lit ''EUR''\<rparr>),
     (lit ''nos'', \<lparr>merchant = lit ''NOS'', category = Servicos, currency = lit ''EUR''\<rparr>),
     (lit ''uber'', \<lparr>merchant = lit ''Uber'', category = lit ''Transportes'', currency = lit ''EUR''\<rparr>),
     (lit ''bolt'', \<lparr>merchant = lit ''Bolt'', category = lit ''Transportes'', currency = lit ''EUR''\<rparr>),
     (lit ''worten'', \<lparr>merchant = lit ''Worten'', category = lit ''Tecnologia'', currency = lit ''EUR''\<rparr>),
     (lit ''fnac'', \<lparr>merchant = lit ''FNAC'', category = lit ''Tecnologia'', currency = lit ''EUR''\<rparr>),
     (lit ''zara'', \<lparr>merchant = lit ''Zara'', category = Vestuario, currency = lit ''EUR''\<rparr>),
     (lit ''primark'', \<lparr>merchant = lit ''Primark'', category = Vestuario, currency = lit ''EUR''\<rparr>),
     (lit ''mcdonald'', \<lparr>merchant = lit ''McDonald'' @ [0x27] @ lit ''s'', category = lit ''Restaurante'', currency = lit ''EUR''\<rparr>),
     (lit ''burger king'', \<lparr>merchant = lit ''Burger King'', category = lit ''Restaurante'', currency = lit ''EUR''\<rparr>),
     (lit ''ikea'', \<lparr>merchant = lit ''IKEA'', category = lit ''Outros'', currency = lit ''EUR''\<rparr>)]"

text \<open>The loop of \<^verbatim>\<open>_try_fast_path\<close> over the items of the dict, in insertion order.\<close>

fun first_match :: "str \<Rightarrow> (str \<times> meta) list \<Rightarrow> meta option" where
  "first_match text_lower [] = None"
| "first_match text_lower ((key, m) # rules) =
     (if sublist key text_lower then Some m else first_match text_lower rules)"

text \<open>The argument is whatever value the caller passes; \<^verbatim>\<open>raw_text.lower()\<close> raises
  AttributeError on anything that is not a string.\<close>

definition try_fast_path ::
  "collaborators \<Rightarrow> json \<Rightarrow> server_state \<Rightarrow> (py_error + meta option) \<times> server_state" where
  "try_fast_path env txt s =
     (case txt of
        JStr t \<Rightarrow>
          (case first_match (lower env t) FAST_PATH_MERCHANTS of
             Some m \<Rightarrow> (Inr (Some m), s\<lparr>fast_path_hits := fast_path_hits s + 1\<rparr>)
           | None \<Rightarrow> (Inr None, s))
      | _ \<Rightarrow> (Inl AttributeError, s))"

subsection \<open>Response parsing and enrichment\<close>

text \<open>Lines 360 to 365 of \<^verbatim>\<open>extract\<close>: the string handed to \<^verbatim>\<open>json.loads\<close>.\<close>

definition select_candidate :: "str \<Rightarrow> py_error + str" where
  "select_candidate t =
     (if sublist (lit ''```json'') t then
        bind (py_index (py_split (lit ''```json'') t) (- 1)) (\<lambda>a.
        bind (py_index (py_split (lit ''```'') a) 0) (\<lambda>b. Inr (strip b)))
      else if sublist (lit ''```'') t then
        bind (py_index (py_split (lit ''```'') t) 1) (\<lambda>a.
        bind (py_index (py_split (lit ''```'') a) 0) (\<lambda>b. Inr (strip b)))
      else Inr t)"

text \<open>Lines 359 to 370: a JSONDecodeError leaves \<^verbatim>\<open>extracted\<close> at \<^verbatim>\<open>None\<close>; any
  other exception of \<^verbatim>\<open>json.loads\<close> is not caught.\<close>

definition parse_output :: "collaborators \<Rightarrow> str \<Rightarrow> py_error + json" where
  "parse_output env t =
     bind (select_candidate t) (\<lambda>candidate.
       case json_loads env candidate of
         Inr v \<Rightarrow> Inr v
       | Inl e \<Rightarrow> if e = JSONDecodeError then Inr JNull else Inl e)"

text \<open>Lines 373 to 382: the fast-path enrichment of a non-empty dict.\<close>

definition enrich ::
  "collaborators \<Rightarrow> json \<Rightarrow> server_state \<Rightarrow> (py_error + json) \<times> server_state" where
  "enrich env extracted s =
     (case extracted of
        JObj d \<Rightarrow>
          if d \<noteq> [] then
            (let m = dict_get d (lit ''merchant'') (JStr []);
                 merchant_str = (if truthy m then m else JStr [])
             in case try_fast_path env merchant_str s of
                  (Inl e, s1) \<Rightarrow> (Inl e, s1)
                | (Inr None, s1) \<Rightarrow> (Inr extracted, s1)
                | (Inr (Some fast_meta), s1) \<Rightarrow>
                    (let d1 = dict_set d (lit ''merchant'') (JStr (merchant fast_meta));
                         d2 = (if \<not> truthy (dict_get d1 (lit ''category'') JNull)
                               then dict_set d1 (lit ''category'') (JStr (category fast_meta)) else d1);
                         d3 = (if \<not> truthy (dict_get d2 (lit ''currency'') JNull)
                               then dict_set d2 (lit ''currency'') (JStr (currency fast_meta)) else d2)
                     in (Inr (JObj d3), s1)))
          else (Inr extracted, s)
      | _ \<Rightarrow> (Inr extracted, s))"

subsection \<open>The endpoints\<close>

definition tagged :: "result \<Rightarrow> str \<Rightarrow> str \<Rightarrow> response" where
  "tagged r tag digest =
     \<lparr>status = status r, extraction = extraction r, raw_text = raw_text r, stats = stats r,
      cache = tag, content_hash = take 16 digest\<rparr>"

text \<open>Lines 384 to 393: the \<^verbatim>\<open>result\<close> dict built from the model's answer and the
  extraction.\<close>

definition make_result :: "raw_output \<Rightarrow> json \<Rightarrow> result" where
  "make_result raw extracted =
     \<lparr>status = lit ''ok'', extraction = extracted, raw_text = raw_text_of raw,
      stats = \<lparr>generation_time_s = raw_generation_time_s raw,
               tokens_per_second = raw_tokens_per_second raw,
               peak_memory_gb = raw_peak_memory_gb raw\<rparr>\<rparr>"

text \<open>Line 349, the suffix of the temporary file, and line 355, the prompt.\<close>

definition file_suffix :: "extract_request \<Rightarrow> py_error + str" where
  "file_suffix req =
     bind (py_index (py_split (lit ''/'') (mime_type req)) (- 1)) (\<lambda>subtype.
       Inr (lit ''.'' @ py_replace (lit ''jpeg'') (lit ''jpg'') subtype))"

definition effective_prompt :: "collaborators \<Rightarrow> extract_request \<Rightarrow> str" where
  "effective_prompt env req =
     (case prompt req of
        None \<Rightarrow> EXTRACT_SYSTEM_PROMPT env
      | Some q \<Rightarrow> if q = [] then EXTRACT_SYSTEM_PROMPT env else q)"

text \<open>Lines 355 to 404, the body of the \<^verbatim>\<open>try\<close> statement: the model is called on
  the temporary file, its answer is parsed and enriched, and a non-null extraction is
  stored in the cache.\<close>

definition extract_body ::
  "collaborators \<Rightarrow> extract_request \<Rightarrow> bytes \<Rightarrow> str \<Rightarrow> str \<Rightarrow> server_state
     \<Rightarrow> (error + response) \<times> server_state" where
  "extract_body env req image_bytes digest tmp_path s =
     (let s1 = s\<lparr>model_calls := Suc (model_calls s)\<rparr>
      in case generate_from_image env (model_calls s) tmp_path image_bytes
                (effective_prompt env req) (max_tokens req) of
           None \<Rightarrow> (Inl (Uncaught ModelError), s1)
         | Some raw \<Rightarrow>
             (case parse_output env (raw_text_of raw) of
                Inl e \<Rightarrow> (Inl (Uncaught e), s1)
              | Inr parsed \<Rightarrow>
                  (case enrich env parsed s1 of
                     (Inl e, s2) \<Rightarrow> (Inl (Uncaught e), s2)
                   | (Inr extracted, s2) \<Rightarrow>
                       (let res = make_result raw extracted
                        in if extracted \<noteq> JNull then
                             (case cache_put env digest res s2 of
                                (Some e, s3) \<Rightarrow> (Inl (Uncaught e), s3)
                              | (None, s3) \<Rightarrow> (Inr (tagged res (lit ''miss'') digest), s3))
                           else (Inr (tagged res (lit ''miss'') digest), s2)))))"

text \<open>Lines 349 to 406 of \<^verbatim>\<open>extract\<close>, after a cache miss. An exception raised while
  the temporary file is created leaves the handler at once. Once the file exists,
  \<^verbatim>\<open>os.unlink\<close> runs on every way out of the \<^verbatim>\<open>try\<close> statement; if it raises, its
  exception replaces the outcome of the body, whose changes to the globals remain.\<close>

definition extract_miss ::
  "collaborators \<Rightarrow> extract_request \<Rightarrow> bytes \<Rightarrow> str \<Rightarrow> server_state
     \<Rightarrow> (error + response) \<times> server_state" where
  "extract_miss env req image_bytes digest s =
     (case file_suffix req of
        Inl e \<Rightarrow> (Inl (Uncaught e), s)
      | Inr sfx \<Rightarrow>
          (case write_temp_file env (model_calls s) sfx image_bytes of
             Inl e \<Rightarrow> (Inl (Uncaught e), s)
           | Inr tmp_path \<Rightarrow>
               (case extract_body env req image_bytes digest tmp_path s of
                  (outcome, s1) \<Rightarrow>
                    (case unlink env (model_calls s) tmp_path of
                       Some e \<Rightarrow> (Inl (Uncaught e), s1)
                     | None \<Rightarrow> (outcome, s1)))))"

text \<open>The handler \<^verbatim>\<open>extract\<close> of \<^verbatim>\<open>POST /extract\<close>, on a request that has passed
  validation.\<close>

definition extract_endpoint ::
  "collaborators \<Rightarrow> extract_request \<Rightarrow> server_state \<Rightarrow> (error + response) \<times> server_state" where
  "extract_endpoint env req s =
     (if \<not> model_loaded s then (Inl (HTTPException 503 (lit ''Model not loaded'')), s)
      else case b64decode env (image req) of
             None \<Rightarrow> (Inl (HTTPException 400 (lit ''Invalid base64 image data'')), s)
           | Some image_bytes \<Rightarrow>
               (let digest = sha256 env image_bytes
                in case cache_get digest s of
                     (Some cached, s1) \<Rightarrow> (Inr (tagged cached (lit ''hit'') digest), s1)
                   | (None, s1) \<Rightarrow> extract_miss env req image_bytes digest s1))"

subsection \<open>Floats\<close>

text \<open>The integer nearest to a rational, a tie going to the even one.\<close>

definition round_half_even :: "rat \<Rightarrow> int" where
  "round_half_even x =
     (let f = \<lfloor>x\<rfloor>; d = x - of_int f
      in if d < 1 / 2 then f else if 1 / 2 < d then f + 1 else if even f then f else f + 1)"

text \<open>\<open>floor_log2 x\<close> is the exponent \<open>e\<close> with \<open>2 ^ e \<le> x < 2 ^ (e + 1)\<close>, for positive
  \<open>x\<close>. \<open>nearest_double x\<close> is the value of \<open>x\<close> rounded to binary64 in the default
  rounding mode, to nearest with ties to even: a multiple of \<open>2 ^ (e - 52)\<close> (53
  significant bits), and of \<open>2 ^ - 1074\<close> in the subnormal range. The exponent is not
  bounded above here; who calls it checks for overflow.\<close>

definition floor_log2 :: "rat \<Rightarrow> int" where
  "floor_log2 x =
     (case quotient_of x of
        (p, q) \<Rightarrow> let d = bitlen p - bitlen q in if 2 powi d \<le> x then d else d - 1)"

definition nearest_double :: "rat \<Rightarrow> rat" where
  "nearest_double x =
     (if x = 0 then 0
      else let e = max (floor_log2 \<bar>x\<bar> - 52) (- 1074)
           in of_int (round_half_even (x / 2 powi e)) * 2 powi e)"

text \<open>\<^verbatim>\<open>a / b\<close> on integers is the correctly rounded quotient; it raises
  ZeroDivisionError when \<open>b\<close> is zero and OverflowError when the quotient is too large for
  a float.\<close>

definition py_truediv :: "int \<Rightarrow> int \<Rightarrow> py_error + rat" where
  "py_truediv a b =
     (if b = 0 then Inl ZeroDivisionError
      else let d = nearest_double (of_int a / of_int b)
           in if 2 ^ 1024 \<le> \<bar>d\<bar> then Inl OverflowError else Inr d)"

text \<open>\<^verbatim>\<open>round(x, ndigits)\<close> on a finite float, for \<open>ndigits\<close> that is not negative: the
  exact value of \<open>x\<close> is rounded to the nearest multiple of \<open>10 ^ - ndigits\<close>, a tie going
  to the even one, and the result is the float nearest to that decimal. Beyond 323 digits
  the float is returned as it is. With \<open>ndigits\<close> not negative the result is never too
  large for a float.\<close>

definition py_round :: "rat \<Rightarrow> nat \<Rightarrow> rat" where
  "py_round x ndigits =
     (if 323 < ndigits then x
      else nearest_double (of_int (round_half_even (x * 10 ^ ndigits)) / 10 ^ ndigits))"

subsection \<open>The health endpoint\<close>

record cache_report =
  cr_size :: int
  cr_max_size :: int
  cr_hits :: nat
  cr_misses :: nat
  cr_fast_path_hits :: nat
  cr_hit_rate :: rat

record health_response =
  hr_status :: str
  hr_role :: str
  hr_model :: str
  hr_load_time_s :: rat
  hr_ready :: bool
  hr_cache :: cache_report

definition health :: "collaborators \<Rightarrow> server_state \<Rightarrow> py_error + health_response" where
  "health env s =
     bind (py_truediv (int (cache_hits s)) (int (max 1 (cache_hits s + cache_misses s)))) (\<lambda>rate.
       Inr \<lparr>hr_status = lit ''ok'', hr_role = lit ''ocr-only'', hr_model = MODEL_ID env,
            hr_load_time_s = py_round (load_time s) 2, hr_ready = model_loaded s,
            hr_cache = \<lparr>cr_size = int (length (content_cache s)),
                        cr_max_size = MAX_CACHE_SIZE env,
                        cr_hits = cache_hits s, cr_misses = cache_misses s,
                        cr_fast_path_hits = fast_path_hits s,
                        cr_hit_rate = py_round rate 3\<rparr>\<rparr>)"

subsection \<open>Sequences of requests and the cache invariant\<close>



subsection \<open>Describing fenced blocks\<close>

text \<open>Three descriptions of where a text is cut, used to state what the parser selects.
  \<open>ends_at_fence mid rest\<close>: in \<open>mid @ rest\<close>, \<open>mid\<close> is the text before the first fence
  marker, or all of it when there is none. \<open>after_last_json_marker t pre suf\<close>: \<open>suf\<close> is
  what follows the last JSON-tagged marker of \<open>t\<close>. \<open>after_first_fence t pre suf\<close>:
  \<open>suf\<close> is what follows the first fence marker of \<open>t\<close>.\<close>

definition ends_at_fence :: "str \<Rightarrow> str \<Rightarrow> bool" where
  "ends_at_fence mid rest =
     (\<not> sublist (lit ''```'') (mid @ take 2 rest) \<and> (rest = [] \<or> prefix (lit ''```'') rest))"

definition after_last_json_marker :: "str \<Rightarrow> str \<Rightarrow> str \<Rightarrow> bool" where
  "after_last_json_marker t pre suf = (t = pre @ (lit ''```json'') @ suf \<and> \<not> sublist (lit ''```json'') suf)"

definition after_first_fence :: "str \<Rightarrow> str \<Rightarrow> str \<Rightarrow> bool" where
  "after_first_fence t pre suf = (t = pre @ (lit ''```'') @ suf \<and> \<not> sublist (lit ''```'') (pre @ (lit ''``'')))"

text \<open>The selection as the specification words it, the JSON-tagged marker being the first
  one of the text: the content between that marker and the next fence marker, else the
  content between the first pair of fence markers, else the text.\<close>

fun before_first :: "str \<Rightarrow> str \<Rightarrow> str" where
  "before_first sep [] = []"
| "before_first sep (c # cs) = (if prefix sep (c # cs) then [] else c # before_first sep cs)"

fun after_first :: "str \<Rightarrow> str \<Rightarrow> str" where
  "after_first sep [] = []"
| "after_first sep (c # cs) =
     (if prefix sep (c # cs) then drop (length sep) (c # cs) else after_first sep cs)"

definition spec_candidate :: "str \<Rightarrow> str" where
  "spec_candidate t =
     (if sublist (lit ''```json'') t then before_first (lit ''```'') (after_first (lit ''```json'') t)
      else if sublist (lit ''```'') t then before_first (lit ''```'') (after_first (lit ''```'') t)
      else t)"

subsection \<open>Sample inputs\<close>

text \<open>Concrete states, requests and collaborators on which the theorems below are
  exercised. The sample \<open>sha256\<close> and \<open>b64decode\<close> agree with the library functions on
  the inputs used: the bytes 1, 2, 3 are \<open>AQID\<close> in base64, and \<open>A\<close> alone is not valid
  base64. The sample file system always creates and removes the temporary file. All
  sample texts are ASCII, so \<open>unicode_lower\<close> is never reached on them.\<close>

fun put_all :: "collaborators \<Rightarrow> (str \<times> result) list \<Rightarrow> server_state \<Rightarrow> server_state" where
  "put_all env [] s = s"
| "put_all env ((k, v) # kvs) s = put_all env kvs (snd (cache_put env k v s))"

definition sample_result :: "json \<Rightarrow> str \<Rightarrow> result" where
  "sample_result j t =
     \<lparr>status = lit ''ok'', extraction = j, raw_text = t,
      stats = \<lparr>generation_time_s = 1, tokens_per_second = None, peak_memory_gb = None\<rparr>\<rparr>"

definition init_state :: server_state where
  "init_state =
     \<lparr>model_loaded = True, load_time = 0, content_cache = [], cache_hits = 0,
      cache_misses = 0, fast_path_hits = 0, model_calls = 0\<rparr>"

definition sample_env ::
  "int \<Rightarrow> (str \<Rightarrow> py_error + json) \<Rightarrow> (nat \<Rightarrow> str) \<Rightarrow> collaborators" where
  "sample_env cap loads answer =
     \<lparr>MODEL_ID = lit ''mlx-community/Qwen3-VL-8B-Instruct-4bit'', MAX_CACHE_SIZE = cap,
      EXTRACT_SYSTEM_PROMPT = lit ''You are a receipt and invoice data extractor'',
      sha256 = (\<lambda>b. if b = [1, 2, 3]
                     then lit ''039058c6f2c0cb492c533b0a4d14ef77cc0f78abccced5287d84a1a2011cfb81''
                     else lit ''e3b0c44298fc1c149afbf4c8996fb92427ae41e4649b934ca495991b7852b855''),
      b64decode = (\<lambda>t. if t = lit ''AQID'' then Some [1, 2, 3] else if t = [] then Some [] else None),
      json_loads = loads,
      unicode_lower = (\<lambda>t. t),
      write_temp_file = (\<lambda>n sfx b. Inr (lit ''/tmp/tmpq3x8k2vd'' @ sfx)),
      unlink = (\<lambda>n p. None),
      generate_from_image = (\<lambda>n tmp_path b p mt.
        Some \<lparr>raw_text_of = answer n, raw_generation_time_s = 1,
              raw_tokens_per_second = None, raw_peak_memory_gb = None\<rparr>)\<rparr>"

definition decode_nothing :: "str \<Rightarrow> py_error + json" where
  "decode_nothing t = Inl JSONDecodeError"

definition answer_garbage :: "nat \<Rightarrow> str" where
  "answer_garbage n = (if n = 0 then lit ''Sorry, I cannot read this receipt.'' else lit ''The image is blurry.'')"

definition sample_request :: extract_request where
  "sample_request = \<lparr>image = lit ''AQID'', mime_type = lit ''image/jpeg'', prompt = None, max_tokens = 1024\<rparr>"

definition answer_fenced :: "nat \<Rightarrow> str" where
  \<open>answer_fenced n = lit ''prefix ```json {"merchant":"X"} ``` suffix''\<close>

definition decode_merchant_x :: "str \<Rightarrow> py_error + json" where
  \<open>decode_merchant_x t =
     (if t = lit ''{"merchant":"X"}'' then Inr (JObj [(lit ''merchant'', JStr (lit ''X''))])
      else Inl JSONDecodeError)\<close>

definition answer_numeric_merchant :: "nat \<Rightarrow> str" where
  \<open>answer_numeric_merchant n = lit ''{"merchant": 123}''\<close>

definition decode_numeric_merchant :: "str \<Rightarrow> py_error + json" where
  \<open>decode_numeric_merchant t =
     (if t = lit ''{"merchant": 123}'' then Inr (JObj [(lit ''merchant'', JInt 123)])
      else Inl JSONDecodeError)\<close>

definition undecodable_request :: extract_request where
  "undecodable_request = \<lparr>image = lit ''A'', mime_type = lit ''image/png'', prompt = None, max_tokens = 1024\<rparr>"

definition example_json :: str where
  \<open>example_json = lit ''{"merchant":"X"}''\<close>

definition example_output :: str where
  \<open>example_output = lit ''prefix ```json {"merchant":"X"} ``` suffix''\<close>

definition two_json_blocks :: str where
  "two_json_blocks = lit ''```json [1] ``` then ```json [2] ```''"

section \<open>Basic facts\<close>

subsection \<open>String literals\<close>

lemma lit_eq_iff [simp]: "lit a = lit b \<longleftrightarrow> a = b"
  unfolding lit_def by (simp add: inj_map_eq_map inj_on_def)

lemma lit_Nil [simp]: "lit [] = []"
  by (simp add: lit_def)

lemma lit_eq_Nil [simp]: "lit a = [] \<longleftrightarrow> a = []"
  by (simp add: lit_def)

lemma length_lit [simp]: "length (lit a) = length a"
  by (simp add: lit_def)

lemma lit_append: "lit (a @ b) = lit a @ lit b"
  by (simp add: lit_def)

lemma take_lit: "take n (lit a) = lit (take n a)"
  by (simp add: lit_def take_map)

lemma prefix_lit [simp]: "prefix (lit a) (lit b) \<longleftrightarrow> prefix a b"
proof
  assume "prefix (lit a) (lit b)"
  then obtain a' where "prefix a' b" and "lit a = lit a'"
    unfolding lit_def using prefix_map_rightE by metis
  then show "prefix a b" by simp
next
  assume "prefix a b"
  then show "prefix (lit a) (lit b)" unfolding lit_def by (rule map_mono_prefix)
qed

lemma sublist_lit [simp]: "sublist (lit a) (lit b) \<longleftrightarrow> sublist a b"
proof
  assume "sublist (lit a) (lit b)"
  then obtain a' where "sublist a' b" and "lit a = lit a'"
    unfolding lit_def using sublist_map_rightE by metis
  then show "sublist a b" by simp
next
  assume "sublist a b"
  then show "sublist (lit a) (lit b)" unfolding lit_def by (rule map_mono_sublist)
qed

subsection \<open>Rounding to the nearest float\<close>

lemma round_half_even_of_int: "round_half_even (of_int n) = n"
  by (simp add: round_half_even_def)

lemma floor_frac: "of_int \<lfloor>x\<rfloor> \<le> x \<and> x < of_int \<lfloor>x\<rfloor> + (1::rat)"
  by linarith

lemma round_half_even_err: "\<bar>of_int (round_half_even x) - x\<bar> \<le> 1 / 2"
  using floor_frac[of x] unfolding round_half_even_def Let_def
  by (auto simp: abs_le_iff)

lemma round_half_even_le: "x \<le> of_int n \<Longrightarrow> round_half_even x \<le> n"
proof -
  assume a: "x \<le> of_int n"
  then have f: "\<lfloor>x\<rfloor> \<le> n" by (simp add: floor_le_iff) 
  show ?thesis
  proof (cases "\<lfloor>x\<rfloor> = n")
    case True
    then have "x = of_int n" using a floor_frac[of x] by simp
    then show ?thesis by (simp add: round_half_even_of_int)
  next
    case False
    then have "\<lfloor>x\<rfloor> + 1 \<le> n" using f by simp
    moreover have "round_half_even x \<le> \<lfloor>x\<rfloor> + 1" by (simp add: round_half_even_def Let_def)
    ultimately show ?thesis by simp
  qed
qed

lemma round_half_even_nonneg: "0 \<le> x \<Longrightarrow> 0 \<le> round_half_even x"
proof -
  assume "0 \<le> x"
  then have "0 \<le> \<lfloor>x\<rfloor>" by simp
  moreover have "\<lfloor>x\<rfloor> \<le> round_half_even x" by (simp add: round_half_even_def Let_def)
  ultimately show ?thesis by linarith
qed


lemma floor_log2_bounds:
  assumes "0 < x"
  shows "2 powi floor_log2 x \<le> x \<and> x < 2 powi (floor_log2 x + 1)"
proof -
  obtain p q where pq: "quotient_of x = (p, q)" by (cases "quotient_of x")
  then have q: "0 < q" and x: "x = of_int p / of_int q"
    using quotient_of_denom_pos[OF pq] quotient_of_div[OF pq] by simp_all
  have p: "0 < p" using assms q x by (simp add: zero_less_divide_iff)
  define d where "d = bitlen p - bitlen q"
  have bp: "2 ^ nat (bitlen p - 1) \<le> p" "p < 2 ^ nat (bitlen p)" using bitlen_bounds[OF p] by simp_all
  have bq: "2 ^ nat (bitlen q - 1) \<le> q" "q < 2 ^ nat (bitlen q)" using bitlen_bounds[OF q] by simp_all
  have lp: "0 < bitlen p" using p bitlen_eq_zero_iff[of p] bitlen_nonneg[of p] by linarith
  have lq: "0 < bitlen q" using q bitlen_eq_zero_iff[of q] bitlen_nonneg[of q] by linarith
  have rp: "(2::rat) powi (bitlen p - 1) \<le> of_int p" "of_int p < (2::rat) powi (bitlen p)"
  proof -
    have "(2::rat) powi (bitlen p - 1) = of_int (2 ^ nat (bitlen p - 1))" using lp by (simp add: power_int_def)
    then show "(2::rat) powi (bitlen p - 1) \<le> of_int p" using bp(1) by (simp only: of_int_le_iff)
    have "(2::rat) powi (bitlen p) = of_int (2 ^ nat (bitlen p))" using lp by (simp add: power_int_def)
    then show "of_int p < (2::rat) powi (bitlen p)" using bp(2) by (simp only: of_int_less_iff)
  qed
  have rq: "(2::rat) powi (bitlen q - 1) \<le> of_int q" "of_int q < (2::rat) powi (bitlen q)"
  proof -
    have "(2::rat) powi (bitlen q - 1) = of_int (2 ^ nat (bitlen q - 1))" using lq by (simp add: power_int_def)
    then show "(2::rat) powi (bitlen q - 1) \<le> of_int q" using bq(1) by (simp only: of_int_le_iff)
    have "(2::rat) powi (bitlen q) = of_int (2 ^ nat (bitlen q))" using lq by (simp add: power_int_def)
    then show "of_int q < (2::rat) powi (bitlen q)" using bq(2) by (simp only: of_int_less_iff)
  qed
  have qpos: "(0::rat) < of_int q" using q by simp
  have up: "x < 2 powi (d + 1)"
  proof -
    have "of_int p < (2::rat) powi (d + 1) * 2 powi (bitlen q - 1)"
      using rp(2) by (simp add: d_def power_int_add[symmetric])
    also have "\<dots> \<le> 2 powi (d + 1) * of_int q" using rq(1) by (simp add: mult_left_mono)
    finally show ?thesis using qpos by (simp add: x pos_divide_less_eq)
  qed
  have lo: "2 powi (d - 1) \<le> x"
  proof -
    have "(2::rat) powi (d - 1) * of_int q \<le> 2 powi (d - 1) * 2 powi (bitlen q)"
      using rq(2) by (simp add: mult_left_mono)
    also have "\<dots> = 2 powi (bitlen p - 1)" by (simp add: d_def power_int_add[symmetric])
    also have "\<dots> \<le> of_int p" using rp(1) .
    finally show ?thesis using qpos by (simp add: x pos_le_divide_eq)
  qed
  show ?thesis
  proof (cases "2 powi d \<le> x")
    case True
    then have "floor_log2 x = d" by (simp add: floor_log2_def pq d_def)
    then show ?thesis using True up by simp
  next
    case False
    then have "floor_log2 x = d - 1" by (simp add: floor_log2_def pq d_def)
    then show ?thesis using False lo by simp
  qed
qed

lemma floor_log2_unique:
  assumes "2 powi e \<le> x" and "x < 2 powi (e + 1)"
  shows "floor_log2 x = e"
proof -
  have pos: "0 < x" using assms(1) by (meson less_le_trans zero_less_numeral zero_less_power_int)
  note b = floor_log2_bounds[OF pos]
  have "(2::rat) powi e < 2 powi (floor_log2 x + 1)" using assms(1) b by simp
  then have 1: "e < floor_log2 x + 1"
    using power_int_increasing[of "floor_log2 x + 1" e "2::rat"] by (cases "e < floor_log2 x + 1") simp_all
  have "(2::rat) powi floor_log2 x < 2 powi (e + 1)" using assms(2) b by simp
  then have 2: "floor_log2 x < e + 1"
    using power_int_increasing[of "e + 1" "floor_log2 x" "2::rat"] by (cases "floor_log2 x < e + 1") simp_all
  show ?thesis using 1 2 by simp
qed


lemma nearest_double_at:
  assumes "2 powi e \<le> \<bar>x\<bar>" and "\<bar>x\<bar> < 2 powi (e + 1)"
  shows "nearest_double x =
           of_int (round_half_even (x / 2 powi (max (e - 52) (- 1074)))) * 2 powi (max (e - 52) (- 1074))"
proof -
  have "0 < \<bar>x\<bar>" using assms(1) by (meson less_le_trans zero_less_numeral zero_less_power_int)
  then have "x \<noteq> 0" by simp
  then show ?thesis using floor_log2_unique[OF assms] by (simp add: nearest_double_def Let_def)
qed

lemma nearest_double_0: "nearest_double 0 = 0"
  by (simp add: nearest_double_def)

lemma abs_scale:
  fixes a x c h :: rat
  assumes "0 < c" and "\<bar>a - x * c\<bar> \<le> h"
  shows "\<bar>a / c - x\<bar> \<le> h / c"
proof -
  have "a / c - x = (a - x * c) / c" using assms(1) by (simp add: diff_divide_distrib)
  then have "\<bar>a / c - x\<bar> = \<bar>a - x * c\<bar> / c" using assms(1) by (simp add: abs_divide)
  also have "\<dots> \<le> h / c" using assms by (intro divide_right_mono) simp_all
  finally show ?thesis .
qed

lemma nearest_double_unit:
  assumes "0 \<le> x" and "x \<le> 1"
  shows "0 \<le> nearest_double x \<and> nearest_double x \<le> 1 \<and> \<bar>nearest_double x - x\<bar> \<le> 1 / 2 ^ 54"
proof (cases "x = 0")
  case True then show ?thesis by (simp add: nearest_double_0)
next
  case False
  then have pos: "0 < x" using assms(1) by simp
  define e where "e = floor_log2 x"
  define n where "n = nat (- max (e - 52) (- 1074))"
  have b: "2 powi e \<le> x" "x < 2 powi (e + 1)" using floor_log2_bounds[OF pos] by (simp_all add: e_def)
  have e0: "e \<le> 0"
  proof (rule ccontr)
    assume "\<not> e \<le> 0"
    then have "(2::rat) powi 1 \<le> 2 powi e" by (intro power_int_increasing) simp_all
    then show False using b(1) assms(2) by simp
  qed
  have s: "max (e - 52) (- 1074) = - int n" using e0 by (simp add: n_def)
  have n52: "52 \<le> n" using e0 by (simp add: n_def)
  have pw: "(2::rat) powi (- int n) = 1 / 2 ^ n" by (simp add: power_int_minus divide_inverse)
  define y where "y = x * 2 ^ n"
  define m where "m = round_half_even y"
  have nd: "nearest_double x = of_int m / 2 ^ n"
    using nearest_double_at[of e x] b pos by (simp add: s pw m_def y_def)
  have y0: "0 \<le> y" using assms(1) by (simp add: y_def)
  have y1: "y \<le> of_int (2 ^ n)" using assms(2) by (simp add: y_def mult_left_le_one_le)
  have m0: "0 \<le> m" using y0 by (simp add: m_def round_half_even_nonneg)
  have m1: "m \<le> 2 ^ n" using y1 unfolding m_def by (rule round_half_even_le)
  have r1: "(of_int m :: rat) \<le> 2 ^ n"
  proof -
    have "(of_int m :: rat) \<le> of_int (2 ^ n)" using m1 by (simp only: of_int_le_iff)
    then show ?thesis by simp
  qed
  have p2: "(0::rat) < 2 ^ n" by simp
  have err: "\<bar>of_int m / 2 ^ n - x\<bar> \<le> 1 / 2 ^ 54"
  proof (cases "e = 0")
    case True
    then have "x = 1" using b(1) assms(2) by simp
    then have "y = of_int (2 ^ n)" by (simp add: y_def)
    then have "m = 2 ^ n" unfolding m_def by (simp only: round_half_even_of_int)
    then show ?thesis using \<open>x = 1\<close> by simp
  next
    case False
    then have n53: "53 \<le> n" using e0 by (simp add: n_def)
    have "\<bar>of_int m - x * 2 ^ n\<bar> \<le> 1 / 2"
      using round_half_even_err[of y] by (simp only: m_def y_def)
    then have A: "\<bar>of_int m / 2 ^ n - x\<bar> \<le> (1 / 2) / 2 ^ n" by (intro abs_scale) simp_all
    have B: "(1 / 2) / (2::rat) ^ n \<le> 1 / 2 ^ 54"
    proof -
      have "(2::rat) ^ 54 \<le> 2 ^ Suc n" using n53 by (intro power_increasing) simp_all
      then have "1 / (2::rat) ^ Suc n \<le> 1 / 2 ^ 54" by (intro divide_left_mono) simp_all
      then show ?thesis by simp
    qed
    show ?thesis using A B by (rule order_trans)
  qed
  show ?thesis using nd m0 r1 err by (simp add: divide_le_eq)
qed

lemma py_round_unit:
  assumes "0 \<le> d" and "d \<le> 1"
  shows "0 \<le> py_round d 3 \<and> py_round d 3 \<le> 1 \<and> \<bar>py_round d 3 - d\<bar> \<le> 1 / 2000 + 1 / 2 ^ 54"
proof -
  define k where "k = round_half_even (d * 1000)"
  have k0: "0 \<le> k" using assms(1) by (simp add: k_def round_half_even_nonneg)
  have "d * 1000 \<le> of_int 1000" using assms(2) by simp
  then have k1: "k \<le> 1000" unfolding k_def by (rule round_half_even_le)
  have u0: "(0::rat) \<le> of_int k / 1000" using k0 by simp
  have u1: "(of_int k :: rat) / 1000 \<le> 1" using k1 by simp
  note n = nearest_double_unit[OF u0 u1]
  have "\<bar>of_int k - d * 1000\<bar> \<le> 1 / 2" unfolding k_def by (rule round_half_even_err)
  then have "\<bar>of_int k / 1000 - d\<bar> \<le> (1 / 2) / 1000" by (intro abs_scale) simp_all
  then have e1: "\<bar>of_int k / 1000 - d\<bar> \<le> 1 / 2000" by simp
  have pr: "py_round d 3 = nearest_double (of_int k / 1000)" by (simp add: py_round_def k_def)
  have "\<bar>nearest_double (of_int k / 1000) - d\<bar> \<le> 1 / 2000 + 1 / 2 ^ 54"
    using n e1 by linarith
  then show ?thesis unfolding pr using n by simp
qed

lemma py_truediv_unit:
  assumes "0 \<le> a" and "a \<le> b" and "0 < b"
  shows "py_truediv a b = Inr (nearest_double (of_int a / of_int b))"
proof -
  have u0: "(0::rat) \<le> of_int a / of_int b" using assms by simp
  have u1: "(of_int a :: rat) / of_int b \<le> 1" using assms by simp
  note n = nearest_double_unit[OF u0 u1]
  have "\<bar>nearest_double (of_int a / of_int b)\<bar> \<le> 1" using n by simp
  moreover have "(1::rat) < 2 ^ 1024" by simp
  ultimately have "\<not> 2 ^ 1024 \<le> \<bar>nearest_double (of_int a / of_int b)\<bar>" by linarith
  then show ?thesis using assms by (simp add: py_truediv_def Let_def)
qed

lemma round_half_even_eq: "\<bar>x - of_int n\<bar> < 1 / 2 \<Longrightarrow> round_half_even x = n"
proof -
  assume a: "\<bar>x - of_int n\<bar> < 1 / 2"
  show ?thesis
  proof (cases "of_int n \<le> x")
    case True
    then have "\<lfloor>x\<rfloor> = n" using a by (intro floor_unique) (simp_all add: abs_less_iff)
    then show ?thesis using a True by (simp add: round_half_even_def Let_def abs_less_iff)
  next
    case False
    then have "\<lfloor>x\<rfloor> = n - 1" using a by (intro floor_unique) (simp_all add: abs_less_iff)
    then show ?thesis using a False by (simp add: round_half_even_def Let_def abs_less_iff)
  qed
qed

lemma nearest_double_eval:
  assumes "2 powi e \<le> \<bar>x\<bar>" and "\<bar>x\<bar> < 2 powi (e + 1)" and "sc = max (e - 52) (- 1074)"
    and "\<bar>x / 2 powi sc - of_int m\<bar> < 1 / 2"
  shows "nearest_double x = of_int m * 2 powi sc"
  unfolding nearest_double_at[OF assms(1,2)] assms(3)[symmetric] round_half_even_eq[OF assms(4)] ..

lemma round_half_even_0: "round_half_even 0 = 0"
  by (simp add: round_half_even_def)

lemma py_round_0: "py_round 0 3 = 0"
  by (simp add: py_round_def round_half_even_0 nearest_double_0)

lemma py_round_0_2: "py_round 0 2 = 0"
  by (simp add: py_round_def round_half_even_0 nearest_double_0)

lemma nearest_double_third: "nearest_double (1 / 3) = 6004799503160661 / 18014398509481984"
  using nearest_double_eval[where x = "1 / 3" and e = "- 2" and sc = "- 54" and m = 6004799503160661]
  by (simp add: power_int_minus)

lemma nearest_double_333: "nearest_double (333 / 1000) = 5998794703657501 / 18014398509481984"
  using nearest_double_eval[where x = "333 / 1000" and e = "- 2" and sc = "- 54" and m = 5998794703657501]
  by (simp add: power_int_minus)

lemma py_round_third: "py_round (nearest_double (1 / 3)) 3 = nearest_double (333 / 1000)"
proof -
  have "round_half_even (6004799503160661 / 18014398509481984 * 10 ^ 3) = 333"
    by (rule round_half_even_eq) simp
  then show ?thesis unfolding nearest_double_third by (simp add: py_round_def)
qed

lemma nearest_double_80th: "nearest_double (1 / 80) = 3602879701896397 / 288230376151711744"
  using nearest_double_eval[where x = "1 / 80" and e = "- 7" and sc = "- 59" and m = 7205759403792794]
  by (simp add: power_int_minus)

lemma py_round_80th: "py_round (nearest_double (1 / 80)) 3 = nearest_double (13 / 1000)"
proof -
  have "round_half_even (3602879701896397 / 288230376151711744 * 10 ^ 3) = 13"
    by (rule round_half_even_eq) simp
  then show ?thesis unfolding nearest_double_80th by (simp add: py_round_def)
qed

lemmas eval_defs = extract_endpoint_def extract_miss_def extract_body_def file_suffix_def
  effective_prompt_def cache_get_def cache_put_def parse_output_def
  select_candidate_def py_index_def py_split_def py_replace_def enrich_def tagged_def
  make_result_def
  sample_env_def init_state_def decode_nothing_def answer_garbage_def sample_request_def
  move_to_end_def try_fast_path_def dict_get_def strip_def is_space_def
  lower_def ascii_lower_def lit_def
  Let_def sublist_code(3)

subsection \<open>The cache as an ordered association list\<close>

lemma evict_nonneg: "0 \<le> cap \<Longrightarrow> evict cap c = (None, drop (length c - nat cap) c)"
proof (induction c)
  case Nil then show ?case by simp
next
  case (Cons p ps)
  show ?case
  proof (cases "int (length (p # ps)) > cap")
    case True
    then have "length (p # ps) - nat cap = Suc (length ps - nat cap)" using Cons.prems by auto
    then show ?thesis using True Cons by simp
  next
    case False
    then have "length (p # ps) - nat cap = 0" by auto
    then show ?thesis using False by simp
  qed
qed

lemma evict_neg: "cap < 0 \<Longrightarrow> evict cap c = (Some KeyError, [])"
  by (induction c) auto

lemma dict_set_fresh: "k \<notin> fst ` set c \<Longrightarrow> dict_set c k v = c @ [(k, v)]"
  by (induction c) auto

lemma map_of_dict_set: "map_of (dict_set c k v) = (map_of c)(k \<mapsto> v)"
  by (induction c) (auto simp: fun_eq_iff)

lemma map_of_filter_other: "map_of (filter (\<lambda>p. fst p \<noteq> k) c) k = None"
  by (induction c) auto

lemma map_of_filter_keep: "k' \<noteq> k \<Longrightarrow> map_of (filter (\<lambda>p. fst p \<noteq> k) c) k' = map_of c k'"
  by (induction c) auto

lemma filter_fresh: "k \<notin> fst ` set c \<Longrightarrow> filter (\<lambda>p. fst p \<noteq> k) c = c"
  by (induction c) auto

lemma move_to_end_present:
  "map_of c k = Some v \<Longrightarrow> move_to_end k c = filter (\<lambda>p. fst p \<noteq> k) c @ [(k, v)]"
  by (simp add: move_to_end_def)

lemma map_of_move_to_end: "map_of (move_to_end k c) = map_of c"
proof (cases "map_of c k")
  case None then show ?thesis by (simp add: move_to_end_def)
next
  case (Some v)
  show ?thesis
  proof
    fix k'
    show "map_of (move_to_end k c) k' = map_of c k'"
      using Some by (cases "k' = k") (auto simp: move_to_end_present map_of_filter_other map_of_filter_keep map_add_def split: option.splits)
  qed
qed

lemma length_filter_distinct:
  "distinct (map fst c) \<Longrightarrow> map_of c k = Some v \<Longrightarrow> Suc (length (filter (\<lambda>p. fst p \<noteq> k) c)) = length c"
proof (induction c)
  case Nil then show ?case by simp
next
  case (Cons p ps)
  then show ?case by (cases "fst p = k") (auto simp: filter_fresh)
qed

lemma put_fresh_cache:
  assumes "0 \<le> MAX_CACHE_SIZE env" "key \<notin> fst ` set (content_cache s)"
  shows "cache_put env key v s =
    (None, s\<lparr>cache_misses := cache_misses s + 1,
             content_cache := drop (Suc (length (content_cache s)) - nat (MAX_CACHE_SIZE env))
                                (content_cache s @ [(key, v)])\<rparr>)"
proof -
  have "map_of (content_cache s) key = None"
    using assms(2) by (simp add: map_of_eq_None_iff)
  then have "move_to_end key (content_cache s @ [(key, v)]) = content_cache s @ [(key, v)]"
    using assms(2) by (simp add: move_to_end_def map_add_def filter_fresh)
  then show ?thesis using assms by (simp add: cache_put_def dict_set_fresh evict_nonneg)
qed

lemma drop_append_le: "n \<le> length xs \<Longrightarrow> drop n (xs @ ys) = drop n xs @ ys"
  by simp

lemma put_all_fresh:
  "0 \<le> MAX_CACHE_SIZE env \<Longrightarrow> distinct (map fst (c @ kvs)) \<Longrightarrow> content_cache s = c \<Longrightarrow>
   int (length c) \<le> MAX_CACHE_SIZE env \<Longrightarrow>
   content_cache (put_all env kvs s) = drop (length (c @ kvs) - nat (MAX_CACHE_SIZE env)) (c @ kvs)"
proof (induction kvs arbitrary: s c)
  case Nil then show ?case by simp
next
  case (Cons kv kvs)
  obtain k v where kv: "kv = (k, v)" by (cases kv)
  define n where "n = Suc (length c) - nat (MAX_CACHE_SIZE env)"
  define c1 where "c1 = drop n (c @ [(k, v)])"
  define s1 where "s1 = snd (cache_put env k v s)"
  have fresh: "k \<notin> fst ` set (content_cache s)" using Cons.prems kv by auto
  have c1: "content_cache s1 = c1"
    using put_fresh_cache[OF Cons.prems(1) fresh] Cons.prems(3) by (simp add: s1_def c1_def n_def)
  have split: "drop n ((c @ [(k, v)]) @ kvs) = c1 @ kvs"
    unfolding c1_def by (rule drop_append_le) (simp add: n_def)
  have "distinct (map fst ((c @ [(k, v)]) @ kvs))" using Cons.prems(2) kv by simp
  then have "distinct (map fst (drop n ((c @ [(k, v)]) @ kvs)))"
    by (metis distinct_drop drop_map)
  then have d: "distinct (map fst (c1 @ kvs))" unfolding split .
  have lc1: "length c1 = Suc (length c) - n" by (simp add: c1_def)
  have e: "(c @ [(k, v)]) @ kvs = c @ kv # kvs" using kv by simp
  have l: "int (length c1) \<le> MAX_CACHE_SIZE env" using Cons.prems(1,4) by (simp add: lc1 n_def)
  have "content_cache (put_all env kvs s1) = drop (length (c1 @ kvs) - nat (MAX_CACHE_SIZE env)) (c1 @ kvs)"
    by (rule Cons.IH[OF Cons.prems(1) d c1 l])
  also have "\<dots> = drop (length (c1 @ kvs) - nat (MAX_CACHE_SIZE env)) (drop n ((c @ [(k, v)]) @ kvs))"
    by (simp only: split)
  also have "\<dots> = drop (length (c1 @ kvs) - nat (MAX_CACHE_SIZE env) + n) (c @ kv # kvs)"
    by (simp only: drop_drop e)
  also have "length (c1 @ kvs) - nat (MAX_CACHE_SIZE env) + n = length (c @ kv # kvs) - nat (MAX_CACHE_SIZE env)"
    using Cons.prems(1,4) by (simp add: lc1 n_def)
  finally show ?case using kv by (simp add: s1_def)
qed

lemma cache_get_present:
  "map_of (content_cache s) k = Some r \<Longrightarrow>
   cache_get k s = (Some r, s\<lparr>content_cache := filter (\<lambda>p. fst p \<noteq> k) (content_cache s) @ [(k, r)],
                              cache_hits := cache_hits s + 1\<rparr>)"
  by (simp add: cache_get_def move_to_end_present)

lemma cache_get_absent: "map_of (content_cache s) k = None \<Longrightarrow> cache_get k s = (None, s)"
  by (simp add: cache_get_def)

lemma cache_put_nonneg:
  "0 \<le> MAX_CACHE_SIZE env \<Longrightarrow>
   cache_put env key v s =
     (None, s\<lparr>cache_misses := cache_misses s + 1,
              content_cache :=
                drop (length (move_to_end key (dict_set (content_cache s) key v)) - nat (MAX_CACHE_SIZE env))
                  (move_to_end key (dict_set (content_cache s) key v))\<rparr>)"
  by (simp add: cache_put_def evict_nonneg Let_def)

lemma cache_put_counters:
  "cache_misses (snd (cache_put env k v s)) = cache_misses s + 1 \<and>
   cache_hits (snd (cache_put env k v s)) = cache_hits s \<and>
   model_calls (snd (cache_put env k v s)) = model_calls s \<and>
   model_loaded (snd (cache_put env k v s)) = model_loaded s \<and>
   fast_path_hits (snd (cache_put env k v s)) = fast_path_hits s"
  by (simp add: cache_put_def Let_def split: prod.splits)

lemma map_of_drop_filter: "map_of (drop n (filter (\<lambda>p. fst p \<noteq> k) c)) k = None"
proof -
  have "k \<notin> fst ` set (drop n (filter (\<lambda>p. fst p \<noteq> k) c))"
    using set_drop_subset[of n "filter (\<lambda>p. fst p \<noteq> k) c"] by auto
  then show ?thesis by (simp add: map_of_eq_None_iff)
qed

lemma cache_put_stores:
  assumes "1 \<le> MAX_CACHE_SIZE env"
  shows "map_of (content_cache (snd (cache_put env k v s))) k = Some v"
proof -
  define f where "f = filter (\<lambda>p. fst p \<noteq> k) (dict_set (content_cache s) k v)"
  have m: "move_to_end k (dict_set (content_cache s) k v) = f @ [(k, v)]"
    by (simp add: move_to_end_present map_of_dict_set f_def)
  define n where "n = length (f @ [(k, v)]) - nat (MAX_CACHE_SIZE env)"
  have "n \<le> length f" using assms by (simp add: n_def)
  then have "drop n (f @ [(k, v)]) = drop n f @ [(k, v)]" by simp
  moreover have "map_of (drop n f) k = None" unfolding f_def by (rule map_of_drop_filter)
  ultimately have "map_of (drop n (f @ [(k, v)])) k = Some v" by (simp add: map_add_def)
  then show ?thesis using assms by (simp add: cache_put_nonneg m n_def)
qed

lemma cache_put_bounded:
  assumes "0 \<le> MAX_CACHE_SIZE env"
  shows "fst (cache_put env key v s) = None \<and>
         int (length (content_cache (snd (cache_put env key v s)))) \<le> MAX_CACHE_SIZE env"
  using assms by (simp add: cache_put_nonneg)

lemma put_full_evicts_oldest:
  assumes "1 \<le> MAX_CACHE_SIZE env" "int (length (content_cache s)) = MAX_CACHE_SIZE env"
    "key \<notin> fst ` set (content_cache s)"
  shows "content_cache (snd (cache_put env key v s)) = tl (content_cache s) @ [(key, v)]"
proof -
  have ne: "content_cache s \<noteq> []" using assms(1,2) by auto
  have "Suc (length (content_cache s)) - nat (MAX_CACHE_SIZE env) = 1" using assms(1,2) by simp
  then show ?thesis using assms put_fresh_cache[of env key s v] ne by (simp add: drop_Suc)
qed

lemma touch_then_put:
  assumes cap: "2 \<le> MAX_CACHE_SIZE env" and d: "distinct (map fst (content_cache s))"
    and full: "int (length (content_cache s)) = MAX_CACHE_SIZE env"
    and pres: "map_of (content_cache s) k = Some r" and fresh: "k' \<notin> fst ` set (content_cache s)"
  shows "content_cache (snd (cache_get k s)) = filter (\<lambda>p. fst p \<noteq> k) (content_cache s) @ [(k, r)]"
    and "content_cache (snd (cache_put env k' v (snd (cache_get k s)))) =
           tl (filter (\<lambda>p. fst p \<noteq> k) (content_cache s)) @ [(k, r), (k', v)]"
proof -
  define f where "f = filter (\<lambda>p. fst p \<noteq> k) (content_cache s)"
  define s1 where "s1 = snd (cache_get k s)"
  show c1: "content_cache (snd (cache_get k s)) = filter (\<lambda>p. fst p \<noteq> k) (content_cache s) @ [(k, r)]"
    using pres by (simp add: cache_get_present)
  have lf: "Suc (length f) = length (content_cache s)"
    unfolding f_def by (rule length_filter_distinct[OF d pres])
  have fne: "f \<noteq> []" using lf full cap by auto
  have kk: "k' \<noteq> k" using pres fresh by (metis domI dom_map_of_conv_image_fst)
  have fresh1: "k' \<notin> fst ` set (content_cache s1)"
    using fresh kk by (auto simp: s1_def c1)
  have l1: "int (length (content_cache s1)) = MAX_CACHE_SIZE env"
    using lf full by (simp add: s1_def c1 f_def)
  have "content_cache (snd (cache_put env k' v s1)) = tl (content_cache s1) @ [(k', v)]"
    by (rule put_full_evicts_oldest) (use cap l1 fresh1 in auto)
  then show "content_cache (snd (cache_put env k' v (snd (cache_get k s)))) =
           tl (filter (\<lambda>p. fst p \<noteq> k) (content_cache s)) @ [(k, r), (k', v)]"
    using fne by (simp add: s1_def c1 f_def)
qed

lemma puts_state:
  "cache_hits (((\<lambda>t. snd (cache_put env k v t)) ^^ N) s) = cache_hits s \<and>
   cache_misses (((\<lambda>t. snd (cache_put env k v t)) ^^ N) s) = cache_misses s + N"
  by (induction N) (simp_all add: cache_put_counters)

lemma puts_present:
  "1 \<le> MAX_CACHE_SIZE env \<Longrightarrow> 1 \<le> N \<Longrightarrow>
   map_of (content_cache (((\<lambda>t. snd (cache_put env k v t)) ^^ N) s)) k = Some v"
  by (cases N) (simp_all add: cache_put_stores)

lemma gets_state:
  "map_of (content_cache s) k = Some v \<Longrightarrow>
   map_of (content_cache (((\<lambda>t. snd (cache_get k t)) ^^ M) s)) k = Some v \<and>
   cache_hits (((\<lambda>t. snd (cache_get k t)) ^^ M) s) = cache_hits s + M \<and>
   cache_misses (((\<lambda>t. snd (cache_get k t)) ^^ M) s) = cache_misses s"
proof (induction M)
  case 0 then show ?case by simp
next
  case (Suc M)
  let ?t = "((\<lambda>t. snd (cache_get k t)) ^^ M) s"
  have p: "map_of (content_cache ?t) k = Some v" using Suc by simp
  have "map_of (filter (\<lambda>p. fst p \<noteq> k) (content_cache ?t) @ [(k, v)]) k = Some v"
    by (simp add: map_add_def map_of_filter_other)
  then show ?case using Suc by (simp add: cache_get_present[OF p])
qed

subsection \<open>The shape of a call of the handler\<close>

lemmas eval_more = eval_defs answer_fenced_def decode_merchant_x_def answer_numeric_merchant_def
  decode_numeric_merchant_def undecodable_request_def FAST_PATH_MERCHANTS_def

lemma split_aux_nonempty: "split_aux sep acc t \<noteq> []"
  by (induction sep acc t rule: split_aux.induct) auto

lemma py_index_last: "xs \<noteq> [] \<Longrightarrow> py_index xs (- 1) = Inr (last xs)"
  by (cases xs rule: rev_cases) (auto simp: py_index_def nth_append)

lemma py_index_first: "xs \<noteq> [] \<Longrightarrow> py_index xs 0 = Inr (hd xs)"
  by (cases xs) (auto simp: py_index_def)

lemma py_split_last: "py_index (py_split sep t) (- 1) = Inr (last (py_split sep t))"
  by (simp add: py_index_last py_split_def split_aux_nonempty)

lemma py_split_first: "py_index (py_split sep t) 0 = Inr (hd (py_split sep t))"
  by (simp add: py_index_first py_split_def split_aux_nonempty)

lemma try_fast_path_state:
  "snd (try_fast_path env j s) = s
   \<or> snd (try_fast_path env j s) = s\<lparr>fast_path_hits := fast_path_hits s + 1\<rparr>"
  by (auto simp: try_fast_path_def split: json.splits option.splits)

lemma enrich_state:
  "snd (enrich env j s) = s \<or> snd (enrich env j s) = s\<lparr>fast_path_hits := fast_path_hits s + 1\<rparr>"
proof (cases j)
  case (JObj d)
  show ?thesis
  proof (cases "d = []")
    case True then show ?thesis using JObj by (simp add: enrich_def)
  next
    case False
    define ms where "ms = (if truthy (dict_get d (lit ''merchant'') (JStr [])) then dict_get d (lit ''merchant'') (JStr []) else JStr [])"
    have "snd (enrich env j s) = snd (try_fast_path env ms s)"
      using JObj False by (simp add: enrich_def Let_def ms_def split: prod.splits sum.splits option.splits)
    then show ?thesis using try_fast_path_state[of env ms s] by simp
  qed
qed (simp_all add: enrich_def)

lemma enrich_frame:
  "content_cache (snd (enrich env j s)) = content_cache s"
  "model_calls (snd (enrich env j s)) = model_calls s"
  "model_loaded (snd (enrich env j s)) = model_loaded s"
  "cache_hits (snd (enrich env j s)) = cache_hits s"
  "cache_misses (snd (enrich env j s)) = cache_misses s"
  using enrich_state[of env j s] by auto

lemma enrich_frame':
  "enrich env j s = (x, s') \<Longrightarrow>
     content_cache s' = content_cache s \<and> model_calls s' = model_calls s \<and>
     model_loaded s' = model_loaded s \<and> cache_hits s' = cache_hits s \<and>
     cache_misses s' = cache_misses s"
  using enrich_frame[of env j s] by simp

lemma cache_put_frame':
  "cache_put env k v s = (e, s') \<Longrightarrow>
     model_calls s' = model_calls s \<and> model_loaded s' = model_loaded s \<and>
     cache_hits s' = cache_hits s \<and> cache_misses s' = cache_misses s + 1"
  using cache_put_counters[of env k v s] by simp

lemma split_aux_two_pieces:
  "sep \<noteq> [] \<Longrightarrow> sublist sep t \<Longrightarrow> 2 \<le> length (split_aux sep acc t)"
proof (induction sep acc t rule: split_aux.induct)
  case (1 sep acc) then show ?case by simp
next
  case (2 sep acc c cs)
  show ?case
  proof (cases "prefix sep (c # cs)")
    case True
    have "split_aux sep [] (drop (length sep - 1) cs) \<noteq> []" by (rule split_aux_nonempty)
    then have "1 \<le> length (split_aux sep [] (drop (length sep - 1) cs))"
      by (simp add: Suc_le_eq)
    then show ?thesis using True by simp
  next
    case False
    then have "sublist sep cs" using "2.prems" by (simp add: sublist_Cons_right)
    then show ?thesis using False 2 by simp
  qed
qed

lemma py_index_second: "2 \<le> length xs \<Longrightarrow> py_index xs 1 = Inr (xs ! 1)"
  by (simp add: py_index_def)

lemma select_candidate_eq:
  "select_candidate t =
     Inr (if sublist (lit ''```json'') t then strip (hd (py_split (lit ''```'') (last (py_split (lit ''```json'') t))))
          else if sublist (lit ''```'') t then strip (hd (py_split (lit ''```'') (py_split (lit ''```'') t ! 1)))
          else t)"
proof -
  have "sublist (lit ''```'') t \<Longrightarrow> py_index (py_split (lit ''```'') t) 1 = Inr (py_split (lit ''```'') t ! 1)"
    by (rule py_index_second) (simp add: py_split_def split_aux_two_pieces)
  then show ?thesis
    by (simp add: select_candidate_def py_split_last py_split_first)
qed

lemma select_candidate_total: "\<exists>c. select_candidate t = Inr c"
  by (simp add: select_candidate_eq)

lemma file_suffix_total: "\<exists>sfx. file_suffix req = Inr sfx"
  by (simp add: file_suffix_def py_split_last)

text \<open>The ways through the body of the \<^verbatim>\<open>try\<close> statement.\<close>

lemma extract_body_cases:
  obtains
    (gen_fail) "extract_body env req b dg path s =
        (Inl (Uncaught ModelError), s\<lparr>model_calls := Suc (model_calls s)\<rparr>)"
  | (parse_fail) raw e where
      "generate_from_image env (model_calls s) path b (effective_prompt env req) (max_tokens req) = Some raw"
      "parse_output env (raw_text_of raw) = Inl e"
      "extract_body env req b dg path s = (Inl (Uncaught e), s\<lparr>model_calls := Suc (model_calls s)\<rparr>)"
  | (enrich_fail) raw parsed e s2 where
      "generate_from_image env (model_calls s) path b (effective_prompt env req) (max_tokens req) = Some raw"
      "parse_output env (raw_text_of raw) = Inr parsed"
      "enrich env parsed (s\<lparr>model_calls := Suc (model_calls s)\<rparr>) = (Inl e, s2)"
      "extract_body env req b dg path s = (Inl (Uncaught e), s2)"
  | (unparsed) raw parsed s2 where
      "generate_from_image env (model_calls s) path b (effective_prompt env req) (max_tokens req) = Some raw"
      "parse_output env (raw_text_of raw) = Inr parsed"
      "enrich env parsed (s\<lparr>model_calls := Suc (model_calls s)\<rparr>) = (Inr JNull, s2)"
      "extract_body env req b dg path s = (Inr (tagged (make_result raw JNull) (lit ''miss'') dg), s2)"
  | (put_fail) raw parsed extracted s2 e s3 where
      "generate_from_image env (model_calls s) path b (effective_prompt env req) (max_tokens req) = Some raw"
      "parse_output env (raw_text_of raw) = Inr parsed"
      "enrich env parsed (s\<lparr>model_calls := Suc (model_calls s)\<rparr>) = (Inr extracted, s2)"
      "extracted \<noteq> JNull"
      "cache_put env dg (make_result raw extracted) s2 = (Some e, s3)"
      "extract_body env req b dg path s = (Inl (Uncaught e), s3)"
  | (stored) raw parsed extracted s2 s3 where
      "generate_from_image env (model_calls s) path b (effective_prompt env req) (max_tokens req) = Some raw"
      "parse_output env (raw_text_of raw) = Inr parsed"
      "enrich env parsed (s\<lparr>model_calls := Suc (model_calls s)\<rparr>) = (Inr extracted, s2)"
      "extracted \<noteq> JNull"
      "cache_put env dg (make_result raw extracted) s2 = (None, s3)"
      "extract_body env req b dg path s = (Inr (tagged (make_result raw extracted) (lit ''miss'') dg), s3)"
proof -
  define p where "p = effective_prompt env req"
  define s1 where "s1 = s\<lparr>model_calls := Suc (model_calls s)\<rparr>"
  have unf: "extract_body env req b dg path s =
    (case generate_from_image env (model_calls s) path b p (max_tokens req) of
       None \<Rightarrow> (Inl (Uncaught ModelError), s1)
     | Some raw \<Rightarrow>
         (case parse_output env (raw_text_of raw) of
            Inl e \<Rightarrow> (Inl (Uncaught e), s1)
          | Inr parsed \<Rightarrow>
              (case enrich env parsed s1 of
                 (Inl e, s2) \<Rightarrow> (Inl (Uncaught e), s2)
               | (Inr extracted, s2) \<Rightarrow>
                   if extracted \<noteq> JNull then
                     (case cache_put env dg (make_result raw extracted) s2 of
                        (Some e, s3) \<Rightarrow> (Inl (Uncaught e), s3)
                      | (None, s3) \<Rightarrow> (Inr (tagged (make_result raw extracted) (lit ''miss'') dg), s3))
                   else (Inr (tagged (make_result raw extracted) (lit ''miss'') dg), s2))))"
    unfolding extract_body_def Let_def p_def s1_def by simp
  show thesis
  proof (cases "generate_from_image env (model_calls s) path b p (max_tokens req)")
    case None
    then show thesis using gen_fail unf by (simp add: s1_def)
  next
    case (Some raw)
    then have g: "generate_from_image env (model_calls s) path b (effective_prompt env req) (max_tokens req) = Some raw"
      by (simp add: p_def)
    show thesis
    proof (cases "parse_output env (raw_text_of raw)")
      case (Inl e)
      then show thesis using parse_fail[OF g, of e] unf Some by (simp add: s1_def)
    next
      case po: (Inr parsed)
      obtain x s2 where en: "enrich env parsed s1 = (x, s2)" by (cases "enrich env parsed s1")
      show thesis
      proof (cases x)
        case (Inl e)
        then show thesis using enrich_fail[OF g po, of e s2] unf Some po en by (simp add: s1_def)
      next
        case (Inr extracted)
        show thesis
        proof (cases "extracted = JNull")
          case True
          then show thesis using unparsed[OF g po, of s2] unf Some po en Inr by (simp add: s1_def)
        next
          case False
          obtain e s3 where cp: "cache_put env dg (make_result raw extracted) s2 = (e, s3)"
            by (cases "cache_put env dg (make_result raw extracted) s2")
          show thesis
          proof (cases e)
            case None
            then show thesis using stored[OF g po, of extracted s2 s3] unf Some po en Inr False cp
              by (simp add: s1_def)
          next
            case e: (Some err)
            then show thesis using put_fail[OF g po, of extracted s2 err s3] unf Some po en Inr False cp
              by (simp add: s1_def)
          qed
        qed
      qed
    qed
  qed
qed


lemma extract_body_model_loaded:
  "model_loaded (snd (extract_body env req b dg path s)) = model_loaded s"
  by (cases rule: extract_body_cases[of env req b dg path s])
     (auto dest!: enrich_frame' cache_put_frame')

lemma extract_body_no_http:
  "fst (extract_body env req b dg path s) \<noteq> Inl (HTTPException code msg)"
  by (cases rule: extract_body_cases[of env req b dg path s]) auto

lemma extract_body_response:
  assumes "extract_body env req b dg path s = (Inr r, s')"
  shows "cache r = lit ''miss''" "content_hash r = take 16 dg" "status r = lit ''ok''"
    and "extraction r = JNull \<Longrightarrow> content_cache s' = content_cache s"
    and "extraction r \<noteq> JNull \<Longrightarrow> 1 \<le> MAX_CACHE_SIZE env \<Longrightarrow>
           map_of (content_cache s') dg =
             Some \<lparr>status = status r, extraction = extraction r, raw_text = raw_text r, stats = stats r\<rparr>"
proof -
  show "cache r = lit ''miss''" "content_hash r = take 16 dg" "status r = lit ''ok''"
    using assms by (cases rule: extract_body_cases[of env req b dg path s]; auto simp: tagged_def make_result_def)+
  show "content_cache s' = content_cache s" if "extraction r = JNull"
    using assms that
    by (cases rule: extract_body_cases[of env req b dg path s])
       (auto simp: tagged_def make_result_def dest!: enrich_frame')
  show "map_of (content_cache s') dg =
             Some \<lparr>status = status r, extraction = extraction r, raw_text = raw_text r, stats = stats r\<rparr>"
    if "extraction r \<noteq> JNull" "1 \<le> MAX_CACHE_SIZE env"
  proof (cases rule: extract_body_cases[of env req b dg path s])
    case (stored raw parsed extracted s2 s3)
    have "map_of (content_cache (snd (cache_put env dg (make_result raw extracted) s2))) dg
            = Some (make_result raw extracted)"
      by (rule cache_put_stores[OF that(2)])
    then show ?thesis using stored assms by (auto simp: tagged_def make_result_def)
  qed (use assms that in \<open>auto simp: tagged_def make_result_def\<close>)
qed

text \<open>The ways through the code after a cache miss: no temporary file, or the body of the
  \<^verbatim>\<open>try\<close> statement followed by \<^verbatim>\<open>os.unlink\<close>, which raises or not.\<close>

lemma extract_miss_cases:
  obtains
    (no_file) e where "extract_miss env req b dg s = (Inl (Uncaught e), s)"
  | (unlink_fail) sfx path e where
      "file_suffix req = Inr sfx" "write_temp_file env (model_calls s) sfx b = Inr path"
      "unlink env (model_calls s) path = Some e"
      "extract_miss env req b dg s = (Inl (Uncaught e), snd (extract_body env req b dg path s))"
  | (removed) sfx path where
      "file_suffix req = Inr sfx" "write_temp_file env (model_calls s) sfx b = Inr path"
      "unlink env (model_calls s) path = None"
      "extract_miss env req b dg s = extract_body env req b dg path s"
proof -
  obtain sfx where f: "file_suffix req = Inr sfx" using file_suffix_total by blast
  show thesis
  proof (cases "write_temp_file env (model_calls s) sfx b")
    case (Inl e)
    then show thesis using no_file[of e] f by (simp add: extract_miss_def)
  next
    case (Inr path)
    show thesis
    proof (cases "unlink env (model_calls s) path")
      case None
      then show thesis using removed[OF f Inr] f Inr by (simp add: extract_miss_def split: prod.splits)
    next
      case (Some e)
      then show thesis using unlink_fail[OF f Inr, of e] f Inr
        by (simp add: extract_miss_def split: prod.splits)
    qed
  qed
qed


lemma extract_miss_model_loaded:
  "model_loaded (snd (extract_miss env req b dg s)) = model_loaded s"
  by (cases rule: extract_miss_cases[of env req b dg s])
     (simp_all add: extract_body_model_loaded)

lemma extract_miss_no_http:
  "fst (extract_miss env req b dg s) \<noteq> Inl (HTTPException code msg)"
  by (cases rule: extract_miss_cases[of env req b dg s])
     (simp_all add: extract_body_no_http)

lemma extract_miss_response:
  assumes "extract_miss env req b dg s = (Inr r, s')"
  shows "cache r = lit ''miss''" "content_hash r = take 16 dg" "status r = lit ''ok''"
    and "extraction r = JNull \<Longrightarrow> content_cache s' = content_cache s"
    and "extraction r \<noteq> JNull \<Longrightarrow> 1 \<le> MAX_CACHE_SIZE env \<Longrightarrow>
           map_of (content_cache s') dg =
             Some \<lparr>status = status r, extraction = extraction r, raw_text = raw_text r, stats = stats r\<rparr>"
proof -
  obtain path where "extract_body env req b dg path s = (Inr r, s')"
    using assms by (cases rule: extract_miss_cases[of env req b dg s]) auto
  note body = extract_body_response[OF this]
  show "cache r = lit ''miss''" "content_hash r = take 16 dg" "status r = lit ''ok''"
    by (rule body)+
  show "extraction r = JNull \<Longrightarrow> content_cache s' = content_cache s" by (rule body)
  show "extraction r \<noteq> JNull \<Longrightarrow> 1 \<le> MAX_CACHE_SIZE env \<Longrightarrow>
           map_of (content_cache s') dg =
             Some \<lparr>status = status r, extraction = extraction r, raw_text = raw_text r, stats = stats r\<rparr>"
    by (rule body)
qed

lemma extract_endpoint_unf:
  "extract_endpoint env req s =
     (if \<not> model_loaded s then (Inl (HTTPException 503 (lit ''Model not loaded'')), s)
      else case b64decode env (image req) of
             None \<Rightarrow> (Inl (HTTPException 400 (lit ''Invalid base64 image data'')), s)
           | Some b \<Rightarrow>
               (case map_of (content_cache s) (sha256 env b) of
                  Some c \<Rightarrow>
                    (Inr (tagged c (lit ''hit'') (sha256 env b)),
                     s\<lparr>content_cache := move_to_end (sha256 env b) (content_cache s),
                       cache_hits := cache_hits s + 1\<rparr>)
                | None \<Rightarrow> extract_miss env req b (sha256 env b) s))"
  by (simp add: extract_endpoint_def cache_get_def Let_def split: option.splits)










lemma first_unparsed:
  "extract_endpoint (sample_env 2 decode_nothing answer_garbage) sample_request init_state =
     (Inr \<lparr>status = lit ''ok'', extraction = JNull, raw_text = lit ''Sorry, I cannot read this receipt.'',
           stats = \<lparr>generation_time_s = 1, tokens_per_second = None, peak_memory_gb = None\<rparr>,
           cache = lit ''miss'', content_hash = lit ''039058c6f2c0cb49''\<rparr>,
      init_state\<lparr>model_calls := 1\<rparr>)"
  by (simp add: eval_more)

lemma first_parsed:
  "extract_endpoint (sample_env 2 decode_merchant_x answer_fenced) sample_request init_state =
     (Inr \<lparr>status = lit ''ok'', extraction = JObj [(lit ''merchant'', JStr (lit ''X''))],
           raw_text = answer_fenced 0,
           stats = \<lparr>generation_time_s = 1, tokens_per_second = None, peak_memory_gb = None\<rparr>,
           cache = lit ''miss'', content_hash = lit ''039058c6f2c0cb49''\<rparr>,
      init_state\<lparr>model_calls := 1, cache_misses := 1,
        content_cache := [(lit ''039058c6f2c0cb492c533b0a4d14ef77cc0f78abccced5287d84a1a2011cfb81'',
           \<lparr>status = lit ''ok'', extraction = JObj [(lit ''merchant'', JStr (lit ''X''))],
             raw_text = answer_fenced 0,
             stats = \<lparr>generation_time_s = 1, tokens_per_second = None, peak_memory_gb = None\<rparr>\<rparr>)]\<rparr>)"
  by (simp add: eval_more)

lemma enrich_null: "enrich env JNull s = (Inr JNull, s)"
  by (simp add: enrich_def)

text \<open>A decoded value that is not an object passes the enrichment untouched; when it is
  not null either, the handler returns it as the extraction and stores the result.\<close>

lemma enrich_non_object: "\<forall>d. v \<noteq> JObj d \<Longrightarrow> enrich env v s = (Inr v, s)"
  by (cases v) (simp_all add: enrich_def)

lemma non_object_value_is_returned_and_cached:
  assumes "model_loaded s" and "b64decode env (image req) = Some b"
    and "map_of (content_cache s) (sha256 env b) = None"
    and "file_suffix req = Inr sfx" and "write_temp_file env (model_calls s) sfx b = Inr path"
    and "unlink env (model_calls s) path = None"
    and "generate_from_image env (model_calls s) path b (effective_prompt env req) (max_tokens req)
           = Some raw"
    and "parse_output env (raw_text_of raw) = Inr v" and "v \<noteq> JNull" and "\<forall>d. v \<noteq> JObj d"
    and "1 \<le> MAX_CACHE_SIZE env"
  shows "fst (extract_endpoint env req s) = Inr (tagged (make_result raw v) (lit ''miss'') (sha256 env b))"
    and "map_of (content_cache (snd (extract_endpoint env req s))) (sha256 env b)
           = Some (make_result raw v)"
proof -
  define s1 where "s1 = s\<lparr>model_calls := Suc (model_calls s)\<rparr>"
  have cap: "0 \<le> MAX_CACHE_SIZE env" using assms(11) by simp
  have put: "fst (cache_put env (sha256 env b) (make_result raw v) s1) = None"
    using cache_put_bounded[OF cap] by simp
  have "extract_body env req b (sha256 env b) path s =
          (Inr (tagged (make_result raw v) (lit ''miss'') (sha256 env b)),
           snd (cache_put env (sha256 env b) (make_result raw v) s1))"
    using assms(7,8,9) put unfolding extract_body_def Let_def s1_def
    by (auto simp: enrich_non_object[OF assms(10)] split: prod.splits)
  then have "extract_miss env req b (sha256 env b) s =
          (Inr (tagged (make_result raw v) (lit ''miss'') (sha256 env b)),
           snd (cache_put env (sha256 env b) (make_result raw v) s1))"
    using assms(4,5,6) by (simp add: extract_miss_def)
  then have e: "extract_endpoint env req s =
          (Inr (tagged (make_result raw v) (lit ''miss'') (sha256 env b)),
           snd (cache_put env (sha256 env b) (make_result raw v) s1))"
    using assms(1,2,3) by (simp add: extract_endpoint_unf)
  show "fst (extract_endpoint env req s) = Inr (tagged (make_result raw v) (lit ''miss'') (sha256 env b))"
    using e by simp
  show "map_of (content_cache (snd (extract_endpoint env req s))) (sha256 env b)
           = Some (make_result raw v)"
    using e cache_put_stores[OF assms(11)] by simp
qed

text \<open>What the handler does not catch: an exception of \<^verbatim>\<open>json.loads\<close> other than
  JSONDecodeError, and a failure to create the temporary file, leave the handler as they
  are.\<close>

lemma other_json_error_is_uncaught:
  assumes "select_candidate (raw_text_of raw) = Inr c" and "json_loads env c = Inl e"
    and "e \<noteq> JSONDecodeError"
    and "generate_from_image env (model_calls s) path b (effective_prompt env req) (max_tokens req)
           = Some raw"
  shows "extract_body env req b dg path s = (Inl (Uncaught e), s\<lparr>model_calls := Suc (model_calls s)\<rparr>)"
proof -
  have "parse_output env (raw_text_of raw) = Inl e" using assms(1,2,3) by (simp add: parse_output_def)
  then show ?thesis using assms(4) by (simp add: extract_body_def Let_def)
qed


subsection \<open>The fast path and the enrichment\<close>

lemma first_match_None_iff:
  "first_match x rules = None \<longleftrightarrow> (\<forall>p\<in>set rules. \<not> sublist (fst p) x)"
  by (induction x rules rule: first_match.induct) auto

lemma first_match_Some_iff:
  "first_match x rules = Some m \<longleftrightarrow>
     (\<exists>pre key post. rules = pre @ (key, m) # post \<and> sublist key x
        \<and> (\<forall>p\<in>set pre. \<not> sublist (fst p) x))"
proof (induction x rules rule: first_match.induct)
  case (1 x) then show ?case by simp
next
  case (2 x key' m' rules)
  show ?case
  proof (cases "sublist key' x")
    case True
    have "(\<exists>pre key post. (key', m') # rules = pre @ (key, m) # post \<and> sublist key x
        \<and> (\<forall>p\<in>set pre. \<not> sublist (fst p) x)) \<longleftrightarrow> m' = m"
    proof
      assume "\<exists>pre key post. (key', m') # rules = pre @ (key, m) # post \<and> sublist key x
        \<and> (\<forall>p\<in>set pre. \<not> sublist (fst p) x)"
      then obtain pre key post where e: "(key', m') # rules = pre @ (key, m) # post"
        and n: "\<forall>p\<in>set pre. \<not> sublist (fst p) x" by blast
      show "m' = m"
      proof (cases pre)
        case Nil then show ?thesis using e by simp
      next
        case (Cons q qs)
        then have "q = (key', m')" using e by simp
        then show ?thesis using n Cons True by auto
      qed
    next
      assume "m' = m"
      then have "(key', m') # rules = [] @ (key', m) # rules" by simp
      then show "\<exists>pre key post. (key', m') # rules = pre @ (key, m) # post \<and> sublist key x
        \<and> (\<forall>p\<in>set pre. \<not> sublist (fst p) x)" using True by fastforce
    qed
    then show ?thesis using True by simp
  next
    case False
    have "(\<exists>pre key post. (key', m') # rules = pre @ (key, m) # post \<and> sublist key x
        \<and> (\<forall>p\<in>set pre. \<not> sublist (fst p) x))
      \<longleftrightarrow> (\<exists>pre key post. rules = pre @ (key, m) # post \<and> sublist key x
        \<and> (\<forall>p\<in>set pre. \<not> sublist (fst p) x))"
    proof
      assume "\<exists>pre key post. (key', m') # rules = pre @ (key, m) # post \<and> sublist key x
        \<and> (\<forall>p\<in>set pre. \<not> sublist (fst p) x)"
      then obtain pre key post where e: "(key', m') # rules = pre @ (key, m) # post"
        and k: "sublist key x" and n: "\<forall>p\<in>set pre. \<not> sublist (fst p) x" by blast
      show "\<exists>pre key post. rules = pre @ (key, m) # post \<and> sublist key x
        \<and> (\<forall>p\<in>set pre. \<not> sublist (fst p) x)"
      proof (cases pre)
        case Nil then show ?thesis using e k False by simp
      next
        case (Cons q qs)
        then have "rules = qs @ (key, m) # post" using e by simp
        then show ?thesis using k n Cons by auto
      qed
    next
      assume "\<exists>pre key post. rules = pre @ (key, m) # post \<and> sublist key x
        \<and> (\<forall>p\<in>set pre. \<not> sublist (fst p) x)"
      then obtain pre key post where e: "rules = pre @ (key, m) # post"
        and k: "sublist key x" and n: "\<forall>p\<in>set pre. \<not> sublist (fst p) x" by blast
      have "(key', m') # rules = ((key', m') # pre) @ (key, m) # post" using e by simp
      moreover have "\<forall>p\<in>set ((key', m') # pre). \<not> sublist (fst p) x" using n False by simp
      ultimately show "\<exists>pre key post. (key', m') # rules = pre @ (key, m) # post \<and> sublist key x
        \<and> (\<forall>p\<in>set pre. \<not> sublist (fst p) x)" using k by blast
    qed
    then show ?thesis using False 2 by simp
  qed
qed

lemma try_fast_path_str:
  "try_fast_path env (JStr t) s =
     (case first_match (lower env t) FAST_PATH_MERCHANTS of
        Some m \<Rightarrow> (Inr (Some m), s\<lparr>fast_path_hits := fast_path_hits s + 1\<rparr>)
      | None \<Rightarrow> (Inr None, s))"
  by (simp add: try_fast_path_def)

lemma dict_get_dict_set:
  "dict_get (dict_set d k v) k' dflt = (if k' = k then v else dict_get d k' dflt)"
  by (simp add: dict_get_def map_of_dict_set)

lemma enrich_obj:
  "d \<noteq> [] \<Longrightarrow> enrich env (JObj d) s =
     (case try_fast_path env (if truthy (dict_get d (lit ''merchant'') (JStr []))
                          then dict_get d (lit ''merchant'') (JStr []) else JStr []) s of
        (Inl e, s1) \<Rightarrow> (Inl e, s1)
      | (Inr None, s1) \<Rightarrow> (Inr (JObj d), s1)
      | (Inr (Some fast_meta), s1) \<Rightarrow>
          (Inr (JObj
             (if \<not> truthy (dict_get d (lit ''currency'') JNull)
              then dict_set
                     (if \<not> truthy (dict_get d (lit ''category'') JNull)
                      then dict_set (dict_set d (lit ''merchant'') (JStr (merchant fast_meta)))
                             (lit ''category'') (JStr (category fast_meta))
                      else dict_set d (lit ''merchant'') (JStr (merchant fast_meta)))
                     (lit ''currency'') (JStr (currency fast_meta))
              else if \<not> truthy (dict_get d (lit ''category'') JNull)
                   then dict_set (dict_set d (lit ''merchant'') (JStr (merchant fast_meta)))
                          (lit ''category'') (JStr (category fast_meta))
                   else dict_set d (lit ''merchant'') (JStr (merchant fast_meta)))),
           s1))"
  unfolding enrich_def Let_def
  by (auto simp: dict_get_dict_set split: prod.splits sum.splits option.splits)

lemma enrich_matched:
  assumes "d \<noteq> []" "map_of d (lit ''merchant'') = Some (JStr t)"
    and "first_match (lower env t) FAST_PATH_MERCHANTS = Some fm"
  shows "enrich env (JObj d) s =
     (Inr (JObj
        (let d1 = dict_set d (lit ''merchant'') (JStr (merchant fm));
             d2 = (if \<not> truthy (dict_get d (lit ''category'') JNull)
                   then dict_set d1 (lit ''category'') (JStr (category fm)) else d1)
         in if \<not> truthy (dict_get d (lit ''currency'') JNull)
            then dict_set d2 (lit ''currency'') (JStr (currency fm)) else d2)),
      s\<lparr>fast_path_hits := fast_path_hits s + 1\<rparr>)"
proof -
  have m: "dict_get d (lit ''merchant'') (JStr []) = JStr t" using assms(2) by (simp add: dict_get_def)
  have arg: "(if truthy (dict_get d (lit ''merchant'') (JStr []))
              then dict_get d (lit ''merchant'') (JStr []) else JStr []) = JStr t"
    unfolding m by simp
  have tfp: "try_fast_path env (JStr t) s = (Inr (Some fm), s\<lparr>fast_path_hits := fast_path_hits s + 1\<rparr>)"
    using assms(3) by (simp add: try_fast_path_str)
  show ?thesis unfolding enrich_obj[OF assms(1)] arg tfp Let_def by simp
qed

lemma enrich_unmatched:
  assumes "dict_get d (lit ''merchant'') (JStr []) = JStr t"
    and "first_match (lower env t) FAST_PATH_MERCHANTS = None"
  shows "enrich env (JObj d) s = (Inr (JObj d), s)"
proof (cases "d = []")
  case True then show ?thesis by (simp add: enrich_def)
next
  case False
  have arg: "(if truthy (dict_get d (lit ''merchant'') (JStr []))
              then dict_get d (lit ''merchant'') (JStr []) else JStr []) = JStr t"
    unfolding assms(1) by simp
  have tfp: "try_fast_path env (JStr t) s = (Inr None, s)" using assms(2) by (simp add: try_fast_path_str)
  show ?thesis unfolding enrich_obj[OF False] arg tfp by simp
qed

lemma lidl_first_match:
  "first_match (lower env (lit ''LIDL Portugal'')) FAST_PATH_MERCHANTS =
     Some \<lparr>merchant = lit ''Lidl'', category = lit ''Supermercado'', currency = lit ''EUR''\<rparr>"
  by (simp add: FAST_PATH_MERCHANTS_def lower_def ascii_lower_def lit_def sublist_code(3))

text \<open>A text that is not pure ASCII is lower-cased by the Unicode case mapping. The Kelvin
  sign U+212A, for one, becomes the letter k, and then the keyword \<open>ikea\<close> matches.\<close>

lemma lower_beyond_ascii: "\<not> list_all (\<lambda>c. c < 0x80) t \<Longrightarrow> lower env t = unicode_lower env t"
  by (simp add: lower_def)

lemma kelvin_sign_matches_ikea:
  assumes "unicode_lower env [0x49, 0x212A, 0x45, 0x41] = lit ''ikea''"
  shows "try_fast_path env (JStr [0x49, 0x212A, 0x45, 0x41]) s =
           (Inr (Some \<lparr>merchant = lit ''IKEA'', category = lit ''Outros'', currency = lit ''EUR''\<rparr>),
            s\<lparr>fast_path_hits := fast_path_hits s + 1\<rparr>)"
proof -
  have "lower env [0x49, 0x212A, 0x45, 0x41] = lit ''ikea''"
    using assms by (simp add: lower_def)
  then show ?thesis
    by (simp add: try_fast_path_str FAST_PATH_MERCHANTS_def sublist_code(3))
qed

subsection \<open>Splitting at fence markers\<close>

lemma split_aux_no_sep: "\<not> sublist sep t \<Longrightarrow> split_aux sep acc t = [rev acc @ t]"
proof (induction sep acc t rule: split_aux.induct)
  case (1 sep acc) then show ?case by simp
next
  case (2 sep acc c cs)
  then have "\<not> prefix sep (c # cs)" "\<not> sublist sep cs" by (auto simp: sublist_Cons_right)
  then show ?case using 2 by simp
qed

lemma json_marker_no_overlap:
  "prefix (lit ''```json'') (u @ (lit ''```json'') @ suf) \<Longrightarrow> u \<noteq> [] \<Longrightarrow> prefix (lit ''```json'') u"
  unfolding lit_def by (auto simp: prefix_append Cons_eq_append_conv)

lemma last_split_aux_cons: "last (x # split_aux sep acc t) = last (split_aux sep acc t)"
  by (simp add: split_aux_nonempty)

lemma split_aux_at_sep:
  "sep \<noteq> [] \<Longrightarrow> split_aux sep acc (sep @ z) = rev acc # split_aux sep [] z"
  by (cases sep) simp_all

lemma split_aux_skip:
  "\<not> prefix sep (c # cs) \<Longrightarrow> split_aux sep acc (c # cs) = split_aux sep (c # acc) cs"
  by simp

lemma last_piece_after_last_sep:
  assumes ne: "sep \<noteq> []"
    and no_overlap: "\<And>u z. prefix sep (u @ sep @ z) \<Longrightarrow> u \<noteq> [] \<Longrightarrow> prefix sep u"
    and last_one: "\<not> sublist sep suf"
  shows "last (split_aux sep acc (pre @ sep @ suf)) = suf"
proof (induction pre arbitrary: acc rule: length_induct)
  case (1 pre)
  show ?case
  proof (cases pre)
    case Nil
    have "split_aux sep acc (sep @ suf) = [rev acc, suf]"
      using split_aux_at_sep[OF ne, of acc suf] split_aux_no_sep[OF last_one, of "[]"] by simp
    then show ?thesis using Nil by simp
  next
    case (Cons c pre')
    show ?thesis
    proof (cases "prefix sep (pre @ sep @ suf)")
      case True
      then have "prefix sep pre" using no_overlap Cons by blast
      then obtain u where u: "pre = sep @ u" by (auto simp: prefix_def)
      then have lu: "length u < length pre" using ne by simp
      have "split_aux sep acc (pre @ sep @ suf) = rev acc # split_aux sep [] (u @ sep @ suf)"
        using split_aux_at_sep[OF ne, of acc "u @ sep @ suf"] u by simp
      then show ?thesis using 1[rule_format, OF lu, of "[]"]
        by (simp only: last_split_aux_cons)
    next
      case False
      have lp: "length pre' < length pre" using Cons by simp
      have "split_aux sep acc (pre @ sep @ suf) = split_aux sep (c # acc) (pre' @ sep @ suf)"
        using split_aux_skip[of sep c "pre' @ sep @ suf" acc] False Cons by simp
      then show ?thesis using 1[rule_format, OF lp, of "c # acc"] by simp
    qed
  qed
qed

lemma last_piece_after_last_json_marker:
  assumes "after_last_json_marker t pre suf"
  shows "last (py_split (lit ''```json'') t) = suf"
proof -
  have t: "t = pre @ (lit ''```json'') @ suf" and n: "\<not> sublist (lit ''```json'') suf"
    using assms unfolding after_last_json_marker_def by blast+
  have ne: "(lit ''```json'') \<noteq> []" by simp
  have "last (split_aux (lit ''```json'') [] (pre @ (lit ''```json'') @ suf)) = suf"
    using ne json_marker_no_overlap n by (rule last_piece_after_last_sep)
  then show ?thesis unfolding py_split_def t .
qed

lemma prefix_take: "prefix us rest \<Longrightarrow> length us \<le> n \<Longrightarrow> prefix us (take n rest)"
  by (auto simp: prefix_def)

lemma prefix_into_window:
  assumes "prefix sep (mid @ rest)" "mid \<noteq> []"
  shows "prefix sep (mid @ take (length sep - 1) rest)"
proof -
  consider "prefix sep mid" | us where "sep = mid @ us" "prefix us rest"
    using assms(1) by (auto simp: prefix_append)
  then show ?thesis
  proof cases
    case 1 then show ?thesis by (simp add: prefix_prefix)
  next
    case 2
    have "length us \<le> length sep - 1" using 2(1) assms(2) by (cases mid) simp_all
    then have "prefix us (take (length sep - 1) rest)" using 2(2) by (rule prefix_take[rotated])
    then show ?thesis using 2(1) by simp
  qed
qed

lemma first_piece_before_fence:
  assumes "sep \<noteq> []" "\<not> sublist sep (mid @ take (length sep - 1) rest)" "rest = [] \<or> prefix sep rest"
  shows "hd (split_aux sep acc (mid @ rest)) = rev acc @ mid"
  using assms
proof (induction mid arbitrary: acc)
  case Nil
  show ?case
  proof (cases "rest = []")
    case True then show ?thesis by simp
  next
    case False
    then obtain z where "rest = sep @ z" using Nil.prems(3) by (auto simp: prefix_def)
    then show ?thesis using split_aux_at_sep[OF Nil.prems(1), of acc z] by simp
  qed
next
  case (Cons c mid)
  have np: "\<not> prefix sep ((c # mid) @ rest)"
    using prefix_into_window[of sep "c # mid" rest] Cons.prems(2) by auto
  have ns: "\<not> sublist sep (mid @ take (length sep - 1) rest)"
    using Cons.prems(2) by (simp add: sublist_Cons_right)
  have "split_aux sep acc ((c # mid) @ rest) = split_aux sep (c # acc) (mid @ rest)"
    using split_aux_skip[of sep c "mid @ rest" acc] np by simp
  then show ?case using Cons.IH[OF Cons.prems(1) ns Cons.prems(3), of "c # acc"] by simp
qed

lemma split_at_first_sep:
  assumes "sep \<noteq> []" "\<not> sublist sep (pre @ take (length sep - 1) (sep @ z))"
  shows "split_aux sep acc (pre @ sep @ z) = (rev acc @ pre) # split_aux sep [] z"
  using assms
proof (induction pre arbitrary: acc)
  case Nil
  show ?case using split_aux_at_sep[OF Nil.prems(1), of acc z] by simp
next
  case (Cons c pre)
  have np: "\<not> prefix sep ((c # pre) @ sep @ z)"
    using prefix_into_window[of sep "c # pre" "sep @ z"] Cons.prems(2) by auto
  have ns: "\<not> sublist sep (pre @ take (length sep - 1) (sep @ z))"
    using Cons.prems(2) by (simp add: sublist_Cons_right)
  have "split_aux sep acc ((c # pre) @ sep @ z) = split_aux sep (c # acc) (pre @ sep @ z)"
    using split_aux_skip[of sep c "pre @ sep @ z" acc] np by simp
  then show ?case using Cons.IH[OF Cons.prems(1) ns, of "c # acc"] by simp
qed

lemma sep_decomposition:
  assumes "sep \<noteq> []"
  shows "\<exists>mid rest. a = mid @ rest \<and> \<not> sublist sep (mid @ take (length sep - 1) rest)
           \<and> (rest = [] \<or> prefix sep rest)"
proof (induction a)
  case Nil
  show ?case
    by (rule exI[of _ "[]"], rule exI[of _ "[]"]) (use assms in simp)
next
  case (Cons c a)
  then obtain mid rest where a: "a = mid @ rest"
    and n: "\<not> sublist sep (mid @ take (length sep - 1) rest)"
    and r: "rest = [] \<or> prefix sep rest" by (elim exE conjE)
  show ?case
  proof (cases "prefix sep (c # a)")
    case True
    have "length (take (length sep - 1) (c # a)) < length sep" using assms by (cases sep) auto
    then have "\<not> sublist sep (take (length sep - 1) (c # a))"
      using sublist_length_le[of sep "take (length sep - 1) (c # a)"] by linarith
    then show ?thesis
      by (intro exI[of _ "[]"] exI[of _ "c # a"]) (use True in simp)
  next
    case False
    have "\<not> prefix sep ((c # mid) @ take (length sep - 1) rest)"
    proof
      assume "prefix sep ((c # mid) @ take (length sep - 1) rest)"
      moreover have "prefix ((c # mid) @ take (length sep - 1) rest) ((c # mid) @ rest)"
        by (simp add: take_is_prefix)
      ultimately have "prefix sep ((c # mid) @ rest)" by (rule prefix_order.trans)
      then show False using False a by simp
    qed
    then have "\<not> sublist sep ((c # mid) @ take (length sep - 1) rest)"
      using n by (simp add: sublist_Cons_right)
    then show ?thesis
      by (intro exI[of _ "c # mid"] exI[of _ rest]) (use a r in simp)
  qed
qed

lemma fence_length: "length (lit ''```'') - 1 = 2"
  by simp

lemma fence_decomposition: "\<exists>mid rest. a = mid @ rest \<and> ends_at_fence mid rest"
proof -
  have "(lit ''```'') \<noteq> []" by simp
  from sep_decomposition[OF this, of a] obtain mid rest where "a = mid @ rest"
    and "\<not> sublist (lit ''```'') (mid @ take (length (lit ''```'') - 1) rest)"
    and "rest = [] \<or> prefix (lit ''```'') rest" by (elim exE conjE)
  then have "a = mid @ rest \<and> ends_at_fence mid rest"
    unfolding ends_at_fence_def fence_length by (intro conjI)
  then show ?thesis by (intro exI)
qed

lemma last_json_marker_exists:
  "sublist (lit ''```json'') t \<Longrightarrow> \<exists>pre suf. after_last_json_marker t pre suf"
proof (induction t rule: length_induct)
  case (1 t)
  from 1(2) obtain p s where t: "t = p @ (lit ''```json'') @ s" by (auto simp: sublist_def)
  show ?case
  proof (cases "sublist (lit ''```json'') s")
    case False
    then show ?thesis using t by (auto simp: after_last_json_marker_def)
  next
    case True
    have "length s < length t" using t by simp
    then obtain pre suf where "after_last_json_marker s pre suf" using 1(1) True by blast
    then have "after_last_json_marker t ((p @ (lit ''```json'')) @ pre) suf"
      using t by (simp add: after_last_json_marker_def)
    then show ?thesis by blast
  qed
qed

lemma first_fence_exists:
  assumes "sublist (lit ''```'') t"
  shows "\<exists>pre suf. after_first_fence t pre suf"
proof -
  obtain mid rest where t: "t = mid @ rest" and e: "ends_at_fence mid rest"
    using fence_decomposition by blast
  have "rest \<noteq> []" using assms t e by (auto simp: ends_at_fence_def)
  then have p: "prefix (lit ''```'') rest" using e by (simp add: ends_at_fence_def)
  then obtain suf where r: "rest = lit ''```'' @ suf" by (auto simp: prefix_def)
  have "take 2 rest = lit ''``''" unfolding r by (simp add: lit_def)
  then have "after_first_fence t mid suf"
    using t e r by (simp add: after_first_fence_def ends_at_fence_def)
  then show ?thesis by blast
qed

lemma sublist_transitive: "sublist a b \<Longrightarrow> sublist b c \<Longrightarrow> sublist a c"
proof -
  assume "sublist a b" "sublist b c"
  then obtain p s p' s' where "b = p @ a @ s" "c = p' @ b @ s'" unfolding sublist_def by (elim exE)
  then have "c = (p' @ p) @ a @ (s @ s')" by simp
  then show ?thesis unfolding sublist_def by (intro exI)
qed

lemma fence_in_json_marker: "sublist (lit ''```json'') t \<Longrightarrow> sublist (lit ''```'') t"
proof -
  assume a: "sublist (lit ''```json'') t"
  have "sublist (lit ''```'') (lit ''```json'')" by (rule prefix_imp_sublist) simp
  then show ?thesis using a by (rule sublist_transitive)
qed

lemma candidate_after_json_marker:
  assumes "after_last_json_marker t pre (mid @ rest)" "ends_at_fence mid rest"
  shows "select_candidate t = Inr (strip mid)"
proof -
  have "t = pre @ (lit ''```json'') @ mid @ rest"
    using assms(1) unfolding after_last_json_marker_def by (elim conjE)
  then have j: "sublist (lit ''```json'') t" by (simp only: sublist_appendI)
  have l: "last (py_split (lit ''```json'') t) = mid @ rest"
    using assms(1) by (rule last_piece_after_last_json_marker)
  have ne: "(lit ''```'') \<noteq> []" by simp
  have "hd (split_aux (lit ''```'') [] (mid @ rest)) = rev [] @ mid"
    using ne assms(2) unfolding ends_at_fence_def fence_length[symmetric]
    by (intro first_piece_before_fence) blast+
  then have h: "hd (py_split (lit ''```'') (mid @ rest)) = mid" by (simp add: py_split_def)
  show ?thesis unfolding select_candidate_eq l h using j by simp
qed

lemma candidate_after_first_fence:
  assumes "\<not> sublist (lit ''```json'') t" "after_first_fence t pre (mid @ rest)" "ends_at_fence mid rest"
  shows "select_candidate t = Inr (strip mid)"
proof -
  have t: "t = pre @ (lit ''```'') @ mid @ rest" and p: "\<not> sublist (lit ''```'') (pre @ (lit ''``''))"
    using assms(2) unfolding after_first_fence_def by blast+
  have f: "sublist (lit ''```'') t" unfolding t by (rule sublist_appendI)
  have ne: "(lit ''```'') \<noteq> []" by simp
  have w: "take (length (lit ''```'') - 1) ((lit ''```'') @ mid @ rest) = lit ''``''"
    by (simp add: lit_def)
  have "split_aux (lit ''```'') [] (pre @ (lit ''```'') @ mid @ rest) =
          (rev [] @ pre) # split_aux (lit ''```'') [] (mid @ rest)"
    using ne by (rule split_at_first_sep) (simp only: w p not_False_eq_True)
  then have s: "py_split (lit ''```'') t = pre # split_aux (lit ''```'') [] (mid @ rest)"
    unfolding py_split_def t by simp
  have "hd (split_aux (lit ''```'') [] (mid @ rest)) = rev [] @ mid"
    using ne assms(3) unfolding ends_at_fence_def fence_length[symmetric]
    by (intro first_piece_before_fence) blast+
  then have h: "hd (split_aux (lit ''```'') [] (mid @ rest)) = mid" by simp
  have "py_split (lit ''```'') t ! 1 = mid"
    unfolding s using h split_aux_nonempty[of "(lit ''```'')" "[]" "mid @ rest"]
    by (simp add: hd_conv_nth)
  moreover have "\<not> sublist (lit ''```'') mid"
  proof
    assume "sublist (lit ''```'') mid"
    then have "sublist (lit ''```'') (mid @ take 2 rest)"
      using sublist_append_rightI[of mid "take 2 rest"] by (rule sublist_transitive)
    then show False using assms(3) unfolding ends_at_fence_def by blast
  qed
  then have "hd (py_split (lit ''```'') mid) = mid" by (simp add: py_split_def split_aux_no_sep)
  ultimately show ?thesis unfolding select_candidate_eq using assms(1) f by simp
qed

lemma example_candidate: "select_candidate example_output = Inr example_json"
  by (simp add: example_output_def example_json_def select_candidate_def py_index_def py_split_def
        strip_def is_space_def lit_def sublist_code(3))

text \<open>The no-break space U+00A0 around a block is stripped with the rest of the
  whitespace.\<close>

lemma no_break_space_is_stripped:
  "select_candidate (lit ''```json'' @ [0xA0] @ lit ''[1]'' @ [0xA0, 0x20] @ lit ''```'') = Inr (lit ''[1]'')"
  by (simp add: select_candidate_def py_index_def py_split_def strip_def is_space_def lit_def
        sublist_code(3))

section \<open>The claims\<close>

subsection \<open>C1: a repeated request is served from the cache\<close>

text \<open>
  C1, as amended. If a call of \<open>extract\<close> returns a response whose extraction is not
  null, and the capacity is at least 1, then the next call with the same image bytes (any
  request whose image decodes to them) returns a response with the same extraction, raw
  text, content hash, status and stats, tagged \<open>hit\<close>, and the model is not called: the
  number of model calls is unchanged.
\<close>

theorem repeat_after_stored_result_is_hit:
  assumes first: "extract_endpoint env req s = (Inr r1, s1)"
    and nonnull: "extraction r1 \<noteq> JNull"
    and cap: "1 \<le> MAX_CACHE_SIZE env"
    and same: "b64decode env (image req2) = b64decode env (image req)"
  shows "\<exists>r2 s2. extract_endpoint env req2 s1 = (Inr r2, s2)
           \<and> extraction r2 = extraction r1 \<and> raw_text r2 = raw_text r1
           \<and> content_hash r2 = content_hash r1 \<and> status r2 = status r1 \<and> stats r2 = stats r1
           \<and> cache r2 = lit ''hit'' \<and> model_calls s2 = model_calls s1"
proof -
  have loaded: "model_loaded s" using first by (auto simp: extract_endpoint_unf split: if_splits)
  then obtain b where b: "b64decode env (image req) = Some b"
    using first by (auto simp: extract_endpoint_unf split: option.splits)
  define dg where "dg = sha256 env b"
  define res where "res = \<lparr>status = status r1, extraction = extraction r1, raw_text = raw_text r1,
                            stats = stats r1\<rparr>"
  have stored: "model_loaded s1 \<and> map_of (content_cache s1) dg = Some res \<and> content_hash r1 = take 16 dg"
  proof (cases "map_of (content_cache s) dg")
    case (Some c)
    then have "r1 = tagged c (lit ''hit'') dg"
      and "s1 = s\<lparr>content_cache := move_to_end dg (content_cache s), cache_hits := cache_hits s + 1\<rparr>"
      using first loaded b by (simp_all add: extract_endpoint_unf dg_def)
    then show ?thesis using Some loaded by (simp add: tagged_def res_def map_of_move_to_end)
  next
    case None
    then have m: "extract_miss env req b dg s = (Inr r1, s1)"
      using first loaded b by (simp add: extract_endpoint_unf dg_def)
    have "model_loaded s1" using extract_miss_model_loaded[of env req b dg s] m loaded by simp
    moreover have "map_of (content_cache s1) dg = Some res"
      unfolding res_def using m nonnull cap by (rule extract_miss_response)
    moreover have "content_hash r1 = take 16 dg" using m by (rule extract_miss_response)
    ultimately show ?thesis by simp
  qed
  then have "extract_endpoint env req2 s1 =
      (Inr (tagged res (lit ''hit'') dg),
       s1\<lparr>content_cache := move_to_end dg (content_cache s1), cache_hits := cache_hits s1 + 1\<rparr>)"
    using same b by (simp add: extract_endpoint_unf dg_def)
  then show ?thesis using stored by (simp add: tagged_def res_def)
qed

theorem repeat_after_stored_result_is_hit_witness:
  "\<exists>r2 s2. extract_endpoint (sample_env 2 decode_merchant_x answer_fenced) sample_request
               (snd (extract_endpoint (sample_env 2 decode_merchant_x answer_fenced) sample_request init_state))
             = (Inr r2, s2)
           \<and> extraction r2 = JObj [(lit ''merchant'', JStr (lit ''X''))] \<and> raw_text r2 = answer_fenced 0
           \<and> content_hash r2 = lit ''039058c6f2c0cb49'' \<and> cache r2 = lit ''hit'' \<and> model_calls s2 = 1"
proof -
  have cap: "1 \<le> MAX_CACHE_SIZE (sample_env 2 decode_merchant_x answer_fenced)"
    by (simp add: sample_env_def)
  show ?thesis
    using repeat_after_stored_result_is_hit[OF first_parsed _ cap refl]
    by (auto simp: first_parsed)
qed

text \<open>
  C1 as stated, for every image, fails when the model's answer does not parse: nothing is
  stored, the second call is again a miss, the model is called a second time, and since
  the model need not answer the same way twice the raw text differs.
\<close>

theorem repeat_after_failed_parse_is_miss:
  "extract_endpoint (sample_env 2 decode_nothing answer_garbage) sample_request init_state =
     (Inr \<lparr>status = lit ''ok'', extraction = JNull, raw_text = lit ''Sorry, I cannot read this receipt.'',
           stats = \<lparr>generation_time_s = 1, tokens_per_second = None, peak_memory_gb = None\<rparr>,
           cache = lit ''miss'', content_hash = lit ''039058c6f2c0cb49''\<rparr>,
      init_state\<lparr>model_calls := 1\<rparr>)
   \<and> extract_endpoint (sample_env 2 decode_nothing answer_garbage) sample_request
        (init_state\<lparr>model_calls := 1\<rparr>) =
     (Inr \<lparr>status = lit ''ok'', extraction = JNull, raw_text = lit ''The image is blurry.'',
           stats = \<lparr>generation_time_s = 1, tokens_per_second = None, peak_memory_gb = None\<rparr>,
           cache = lit ''miss'', content_hash = lit ''039058c6f2c0cb49''\<rparr>,
      init_state\<lparr>model_calls := 2\<rparr>)"
  by (simp add: eval_more)

subsection \<open>C2: a null extraction is never cached\<close>



subsection \<open>C3: the bounded LRU discipline of the cache\<close>

text \<open>
  C3, as amended. For a capacity that is not negative: a put never raises and leaves at
  most \<open>MAX_CACHE_SIZE\<close> entries, whatever the cache held before; putting capacity + 1
  distinct keys into an empty cache leaves exactly all of them but the first, in the order
  they were put; a put of a new key into a full cache (capacity at least 1) removes exactly
  the oldest entry; and, when the capacity is at least 2, a get on a present key makes it
  the newest entry, and the put of a new key that follows on the full cache removes the
  oldest of the other entries and keeps the key that was read.
\<close>

theorem lru_cache_discipline:
  assumes "0 \<le> MAX_CACHE_SIZE env"
  shows "(fst (cache_put env key v s) = None
          \<and> int (length (content_cache (snd (cache_put env key v s)))) \<le> MAX_CACHE_SIZE env)
       \<and> (content_cache s = [] \<and> distinct (map fst kvs) \<and> int (length kvs) = MAX_CACHE_SIZE env + 1
            \<longrightarrow> content_cache (put_all env kvs s) = tl kvs)
       \<and> (1 \<le> MAX_CACHE_SIZE env \<and> int (length (content_cache s)) = MAX_CACHE_SIZE env
            \<and> key \<notin> fst ` set (content_cache s)
            \<longrightarrow> content_cache (snd (cache_put env key v s)) = tl (content_cache s) @ [(key, v)])
       \<and> (2 \<le> MAX_CACHE_SIZE env \<and> distinct (map fst (content_cache s))
            \<and> int (length (content_cache s)) = MAX_CACHE_SIZE env
            \<and> map_of (content_cache s) k = Some r \<and> key \<notin> fst ` set (content_cache s)
            \<longrightarrow> last (content_cache (snd (cache_get k s))) = (k, r)
              \<and> content_cache (snd (cache_put env key v (snd (cache_get k s))))
                  = tl (filter (\<lambda>p. fst p \<noteq> k) (content_cache s)) @ [(k, r), (key, v)])"
proof (intro conjI impI)
  show "fst (cache_put env key v s) = None" using cache_put_bounded[OF assms] by simp
  show "int (length (content_cache (snd (cache_put env key v s)))) \<le> MAX_CACHE_SIZE env"
    using cache_put_bounded[OF assms] by simp
next
  assume a: "content_cache s = [] \<and> distinct (map fst kvs) \<and> int (length kvs) = MAX_CACHE_SIZE env + 1"
  then have "int (length kvs) = MAX_CACHE_SIZE env + 1" by simp
  then have "length kvs = nat (MAX_CACHE_SIZE env) + 1" using assms by linarith
  then have "length kvs - nat (MAX_CACHE_SIZE env) = 1" by simp
  then show "content_cache (put_all env kvs s) = tl kvs"
    using put_all_fresh[of env "[]" kvs s] a assms by (simp add: drop_Suc)
next
  assume "1 \<le> MAX_CACHE_SIZE env \<and> int (length (content_cache s)) = MAX_CACHE_SIZE env
            \<and> key \<notin> fst ` set (content_cache s)"
  then show "content_cache (snd (cache_put env key v s)) = tl (content_cache s) @ [(key, v)]"
    by (simp add: put_full_evicts_oldest)
next
  assume a: "2 \<le> MAX_CACHE_SIZE env \<and> distinct (map fst (content_cache s))
            \<and> int (length (content_cache s)) = MAX_CACHE_SIZE env
            \<and> map_of (content_cache s) k = Some r \<and> key \<notin> fst ` set (content_cache s)"
  then show "last (content_cache (snd (cache_get k s))) = (k, r)"
    by (simp add: cache_get_present)
  from a show "content_cache (snd (cache_put env key v (snd (cache_get k s))))
                  = tl (filter (\<lambda>p. fst p \<noteq> k) (content_cache s)) @ [(k, r), (key, v)]"
    by (intro touch_then_put(2)) auto
qed

theorem lru_cache_discipline_witness:
  "content_cache (put_all (sample_env 2 decode_nothing answer_garbage)
       [(lit ''a'', sample_result (JInt 1) []), (lit ''b'', sample_result (JInt 2) []),
        (lit ''c'', sample_result (JInt 3) [])] init_state)
     = [(lit ''b'', sample_result (JInt 2) []), (lit ''c'', sample_result (JInt 3) [])]
   \<and> content_cache (snd (cache_put (sample_env 2 decode_nothing answer_garbage) (lit ''c'') (sample_result (JInt 3) [])
        (snd (cache_get (lit ''a'') (init_state\<lparr>content_cache :=
            [(lit ''a'', sample_result (JInt 1) []), (lit ''b'', sample_result (JInt 2) [])]\<rparr>)))))
     = [(lit ''a'', sample_result (JInt 1) []), (lit ''c'', sample_result (JInt 3) [])]"
  using lru_cache_discipline[of "sample_env 2 decode_nothing answer_garbage" "(lit ''c'')" "sample_result (JInt 3) []"
          init_state "[(lit ''a'', sample_result (JInt 1) []), (lit ''b'', sample_result (JInt 2) []),
        (lit ''c'', sample_result (JInt 3) [])]" "(lit ''a'')" "sample_result (JInt 1) []"]
    lru_cache_discipline[of "sample_env 2 decode_nothing answer_garbage" "(lit ''c'')" "sample_result (JInt 3) []"
          "init_state\<lparr>content_cache :=
            [(lit ''a'', sample_result (JInt 1) []), (lit ''b'', sample_result (JInt 2) [])]\<rparr>" "[]" "(lit ''a'')" "sample_result (JInt 1) []"]
  by (simp add: sample_env_def init_state_def)

text \<open>
  C3 as stated fails at two capacities the environment can configure. With capacity 1 a
  get on the only key does not protect it: the next put of another key evicts it. With
  capacity -1 a put empties the cache and then raises KeyError from \<^verbatim>\<open>popitem\<close>, so
  it never reaches a state whose size is at most the capacity.
\<close>

theorem lru_touch_unprotected_at_capacity_one:
  "content_cache (snd (cache_put (sample_env 1 decode_nothing answer_garbage) (lit ''b'') (sample_result (JInt 2) [])
        (snd (cache_get (lit ''a'') (init_state\<lparr>content_cache := [(lit ''a'', sample_result (JInt 1) [])]\<rparr>)))))
     = [(lit ''b'', sample_result (JInt 2) [])]
   \<and> cache_put (sample_env (- 1) decode_nothing answer_garbage) (lit ''a'') (sample_result (JInt 1) []) init_state
     = (Some KeyError, init_state\<lparr>cache_misses := 1\<rparr>)"
  by (simp add: cache_put_def cache_get_def move_to_end_def sample_env_def init_state_def Let_def)

subsection \<open>C4: hit and miss accounting\<close>

text \<open>
  C4, as amended. A get on a present key returns the stored value and adds one to the hit
  counter, leaving the miss counter alone; every put, which is how a miss is stored,
  adds one to the miss counter and leaves the hit counter alone. So from zero counters,
  after N puts of a key (N at least 1, capacity at least 1) followed by M gets of that key,
  \<open>health\<close> reports hits = M, misses = N and as hit rate the float
  \<^verbatim>\<open>round(M / (M + N), 3)\<close>: the quotient is rounded to the nearest float, that float
  is rounded to three decimals, and the result is the float nearest to this decimal. The
  reported rate differs from M / (M + N) by at most 0.0005 and two float rounding errors
  of at most \<open>2 ^ - 54\<close> each.
\<close>

theorem hit_miss_accounting:
  "(map_of (content_cache s) k = Some r \<longrightarrow>
      fst (cache_get k s) = Some r \<and> cache_hits (snd (cache_get k s)) = cache_hits s + 1
      \<and> cache_misses (snd (cache_get k s)) = cache_misses s)
   \<and> cache_misses (snd (cache_put env k v s)) = cache_misses s + 1
   \<and> cache_hits (snd (cache_put env k v s)) = cache_hits s
   \<and> (1 \<le> MAX_CACHE_SIZE env \<and> 1 \<le> N \<and> cache_hits s = 0 \<and> cache_misses s = 0 \<longrightarrow>
        map_sum id (\<lambda>h. (cr_hits (hr_cache h), cr_misses (hr_cache h), cr_hit_rate (hr_cache h)))
          (health env (((\<lambda>t. snd (cache_get k t)) ^^ M) (((\<lambda>t. snd (cache_put env k v t)) ^^ N) s)))
        = Inr (M, N, py_round (nearest_double (of_nat M / of_nat (M + N))) 3)
        \<and> \<bar>py_round (nearest_double (of_nat M / of_nat (M + N))) 3 - of_nat M / of_nat (M + N)\<bar>
            \<le> 1 / 2000 + 1 / 2 ^ 53)"
proof (intro conjI impI)
  assume "map_of (content_cache s) k = Some r"
  then show "fst (cache_get k s) = Some r" "cache_hits (snd (cache_get k s)) = cache_hits s + 1"
    "cache_misses (snd (cache_get k s)) = cache_misses s"
    by (simp_all add: cache_get_present)
next
  show "cache_misses (snd (cache_put env k v s)) = cache_misses s + 1"
    "cache_hits (snd (cache_put env k v s)) = cache_hits s"
    by (simp_all add: cache_put_counters)
next
  assume a: "1 \<le> MAX_CACHE_SIZE env \<and> 1 \<le> N \<and> cache_hits s = 0 \<and> cache_misses s = 0"
  define s1 where "s1 = ((\<lambda>t. snd (cache_put env k v t)) ^^ N) s"
  define s2 where "s2 = ((\<lambda>t. snd (cache_get k t)) ^^ M) s1"
  have p: "map_of (content_cache s1) k = Some v" unfolding s1_def using a by (simp add: puts_present)
  have c1: "cache_hits s1 = 0" "cache_misses s1 = N"
    using puts_state[where env=env and k=k and v=v and N=N and s=s] a by (simp_all add: s1_def)
  have c2: "cache_hits s2 = M" "cache_misses s2 = N"
    using gets_state[OF p, of M] c1 by (simp_all add: s2_def)
  have mx: "max 1 (M + N) = M + N" using a by simp
  have "py_truediv (int M) (int (M + N)) = Inr (nearest_double (of_int (int M) / of_int (int (M + N))))"
    using a by (intro py_truediv_unit) simp_all
  then have "health env s2 = Inr \<lparr>hr_status = lit ''ok'', hr_role = lit ''ocr-only'', hr_model = MODEL_ID env,
            hr_load_time_s = py_round (load_time s2) 2, hr_ready = model_loaded s2,
            hr_cache = \<lparr>cr_size = int (length (content_cache s2)),
                        cr_max_size = MAX_CACHE_SIZE env,
                        cr_hits = M, cr_misses = N,
                        cr_fast_path_hits = fast_path_hits s2,
                        cr_hit_rate = py_round (nearest_double (of_nat M / of_nat (M + N))) 3\<rparr>\<rparr>"
    using mx by (simp add: health_def c2)
  then show "map_sum id (\<lambda>h. (cr_hits (hr_cache h), cr_misses (hr_cache h), cr_hit_rate (hr_cache h)))
          (health env (((\<lambda>t. snd (cache_get k t)) ^^ M) (((\<lambda>t. snd (cache_put env k v t)) ^^ N) s)))
        = Inr (M, N, py_round (nearest_double (of_nat M / of_nat (M + N))) 3)"
    by (simp add: s1_def s2_def)
next
  assume a: "1 \<le> MAX_CACHE_SIZE env \<and> 1 \<le> N \<and> cache_hits s = 0 \<and> cache_misses s = 0"
  define x :: rat where "x = of_nat M / of_nat (M + N)"
  have x0: "0 \<le> x" by (simp add: x_def)
  have x1: "x \<le> 1" using a by (simp add: x_def)
  note d = nearest_double_unit[OF x0 x1]
  have "\<bar>py_round (nearest_double x) 3 - nearest_double x\<bar> \<le> 1 / 2000 + 1 / 2 ^ 54"
    using py_round_unit[of "nearest_double x"] d by simp
  then have "\<bar>py_round (nearest_double x) 3 - x\<bar> \<le> 1 / 2000 + 1 / 2 ^ 54 + 1 / 2 ^ 54"
    using d by linarith
  then show "\<bar>py_round (nearest_double (of_nat M / of_nat (M + N))) 3 - of_nat M / of_nat (M + N)\<bar>
            \<le> 1 / 2000 + 1 / 2 ^ 53"
    by (simp add: x_def)
qed

theorem hit_miss_accounting_witness:
  "map_sum id (\<lambda>h. (cr_hits (hr_cache h), cr_misses (hr_cache h), cr_hit_rate (hr_cache h)))
     (health (sample_env 2 decode_nothing answer_garbage)
        (((\<lambda>t. snd (cache_get (lit ''a'') t)) ^^ 1)
           (((\<lambda>t. snd (cache_put (sample_env 2 decode_nothing answer_garbage) (lit ''a'') (sample_result (JInt 1) []) t)) ^^ 79)
              init_state)))
     = Inr (1, 79, nearest_double (13 / 1000))"
  using hit_miss_accounting[where s = init_state and env = "sample_env 2 decode_nothing answer_garbage"
      and k = "lit ''a''" and v = "sample_result (JInt 1) []" and N = 79 and M = 1]
  by (simp add: sample_env_def init_state_def py_round_80th)

text \<open>
  C4 as stated fails in two ways. The reported hit rate is a rounded float: with one hit
  and two misses counted it is the float 0.333, not 1/3. And a get on an absent key counts
  nothing: the lookup returns nothing and leaves the state as it was, so after a request
  whose model output does not parse, a miss that is never followed by a put, \<open>health\<close>
  still reports 0 misses.
\<close>

theorem absent_get_counts_no_miss:
  "health (sample_env 2 decode_nothing answer_garbage) (init_state\<lparr>cache_hits := 1, cache_misses := 2\<rparr>) =
       Inr \<lparr>hr_status = lit ''ok'', hr_role = lit ''ocr-only'',
            hr_model = lit ''mlx-community/Qwen3-VL-8B-Instruct-4bit'',
            hr_load_time_s = 0, hr_ready = True,
            hr_cache = \<lparr>cr_size = 0, cr_max_size = 2, cr_hits = 1, cr_misses = 2,
                        cr_fast_path_hits = 0,
                        cr_hit_rate = 5998794703657501 / 18014398509481984\<rparr>\<rparr>
   \<and> (5998794703657501 / 18014398509481984 :: rat) \<noteq> 1 / 3
   \<and> cache_get (lit ''a'') init_state = (None, init_state)
   \<and> cache_misses init_state = 0
   \<and> extract_endpoint (sample_env 2 decode_nothing answer_garbage) sample_request init_state =
       (Inr \<lparr>status = lit ''ok'', extraction = JNull, raw_text = lit ''Sorry, I cannot read this receipt.'',
           stats = \<lparr>generation_time_s = 1, tokens_per_second = None, peak_memory_gb = None\<rparr>,
           cache = lit ''miss'', content_hash = lit ''039058c6f2c0cb49''\<rparr>,
        init_state\<lparr>model_calls := 1\<rparr>)
   \<and> health (sample_env 2 decode_nothing answer_garbage) (init_state\<lparr>model_calls := 1\<rparr>) =
       Inr \<lparr>hr_status = lit ''ok'', hr_role = lit ''ocr-only'',
            hr_model = lit ''mlx-community/Qwen3-VL-8B-Instruct-4bit'',
            hr_load_time_s = 0, hr_ready = True,
            hr_cache = \<lparr>cr_size = 0, cr_max_size = 2, cr_hits = 0, cr_misses = 0,
                        cr_fast_path_hits = 0, cr_hit_rate = 0\<rparr>\<rparr>"
proof -
  have d: "py_truediv 1 3 = Inr (nearest_double (1 / 3))"
    using py_truediv_unit[of 1 3] by simp
  have z: "py_truediv 0 1 = Inr 0"
    using py_truediv_unit[of 0 1] by (simp add: nearest_double_0)
  have h1: "health (sample_env 2 decode_nothing answer_garbage) (init_state\<lparr>cache_hits := 1, cache_misses := 2\<rparr>) =
       Inr \<lparr>hr_status = lit ''ok'', hr_role = lit ''ocr-only'',
            hr_model = lit ''mlx-community/Qwen3-VL-8B-Instruct-4bit'',
            hr_load_time_s = 0, hr_ready = True,
            hr_cache = \<lparr>cr_size = 0, cr_max_size = 2, cr_hits = 1, cr_misses = 2,
                        cr_fast_path_hits = 0,
                        cr_hit_rate = 5998794703657501 / 18014398509481984\<rparr>\<rparr>"
    by (simp add: health_def sample_env_def init_state_def d py_round_third nearest_double_333 py_round_0_2)
  have h2: "health (sample_env 2 decode_nothing answer_garbage) (init_state\<lparr>model_calls := 1\<rparr>) =
       Inr \<lparr>hr_status = lit ''ok'', hr_role = lit ''ocr-only'',
            hr_model = lit ''mlx-community/Qwen3-VL-8B-Instruct-4bit'',
            hr_load_time_s = 0, hr_ready = True,
            hr_cache = \<lparr>cr_size = 0, cr_max_size = 2, cr_hits = 0, cr_misses = 0,
                        cr_fast_path_hits = 0, cr_hit_rate = 0\<rparr>\<rparr>"
    by (simp add: health_def sample_env_def init_state_def z py_round_0 py_round_0_2)
  have g: "cache_get (lit ''a'') init_state = (None, init_state)"
    by (simp add: cache_get_def init_state_def)
  show ?thesis using h1 h2 g first_unparsed by (simp add: init_state_def)
qed

subsection \<open>C5: the candidate JSON string\<close>

text \<open>
  C5, as amended. For every model text: if it contains a JSON-tagged fence marker, the
  candidate is the content between the last such marker and the next fence marker after
  it (the rest of the text when none follows), with surrounding whitespace stripped;
  otherwise, if it contains a fence marker, the candidate is the content between the first
  marker and the next one (the rest of the text when there is no other), stripped;
  otherwise it is the text itself, verbatim. In each of the first two cases such a cut of
  the text exists, and every such cut gives the same candidate. Whitespace is what
  \<^verbatim>\<open>str.strip\<close> removes, \<open>is_space\<close>. In particular the text \<open>example_output\<close> parses to
  the object with merchant \<open>X\<close> when \<^verbatim>\<open>json.loads\<close> decodes \<open>example_json\<close> to it, and
  a text without fences that \<^verbatim>\<open>json.loads\<close> rejects with a JSONDecodeError parses to
  null, raising nothing.
\<close>

theorem candidate_selection:
  "(sublist (lit ''```json'') t \<longrightarrow>
       (\<exists>pre mid rest. after_last_json_marker t pre (mid @ rest) \<and> ends_at_fence mid rest)
     \<and> (\<forall>pre mid rest. after_last_json_marker t pre (mid @ rest) \<and> ends_at_fence mid rest
           \<longrightarrow> select_candidate t = Inr (strip mid)))
   \<and> (\<not> sublist (lit ''```json'') t \<and> sublist (lit ''```'') t \<longrightarrow>
       (\<exists>pre mid rest. after_first_fence t pre (mid @ rest) \<and> ends_at_fence mid rest)
     \<and> (\<forall>pre mid rest. after_first_fence t pre (mid @ rest) \<and> ends_at_fence mid rest
           \<longrightarrow> select_candidate t = Inr (strip mid)))
   \<and> (\<not> sublist (lit ''```'') t \<longrightarrow> select_candidate t = Inr t)
   \<and> (json_loads env example_json = Inr (JObj [(lit ''merchant'', JStr (lit ''X''))]) \<longrightarrow>
        parse_output env example_output = Inr (JObj [(lit ''merchant'', JStr (lit ''X''))]))
   \<and> (\<not> sublist (lit ''```'') t \<and> json_loads env t = Inl JSONDecodeError \<longrightarrow>
        parse_output env t = Inr JNull)"
proof (intro conjI impI allI)
  assume j: "sublist (lit ''```json'') t"
  obtain pre suf where a: "after_last_json_marker t pre suf"
    using last_json_marker_exists[OF j] by (elim exE)
  obtain mid rest where "suf = mid @ rest" and e: "ends_at_fence mid rest"
    using fence_decomposition[of suf] by (elim exE conjE)
  then have "after_last_json_marker t pre (mid @ rest) \<and> ends_at_fence mid rest" using a by simp
  then show "\<exists>pre mid rest. after_last_json_marker t pre (mid @ rest) \<and> ends_at_fence mid rest"
    by (intro exI)
next
  fix pre mid rest
  assume "after_last_json_marker t pre (mid @ rest) \<and> ends_at_fence mid rest"
  then show "select_candidate t = Inr (strip mid)" using candidate_after_json_marker by blast
next
  assume "\<not> sublist (lit ''```json'') t \<and> sublist (lit ''```'') t"
  then have f: "sublist (lit ''```'') t" by (elim conjE)
  obtain pre suf where a: "after_first_fence t pre suf"
    using first_fence_exists[OF f] by (elim exE)
  obtain mid rest where "suf = mid @ rest" and e: "ends_at_fence mid rest"
    using fence_decomposition[of suf] by (elim exE conjE)
  then have "after_first_fence t pre (mid @ rest) \<and> ends_at_fence mid rest" using a by simp
  then show "\<exists>pre mid rest. after_first_fence t pre (mid @ rest) \<and> ends_at_fence mid rest"
    by (intro exI)
next
  fix pre mid rest
  assume "\<not> sublist (lit ''```json'') t \<and> sublist (lit ''```'') t"
    and "after_first_fence t pre (mid @ rest) \<and> ends_at_fence mid rest"
  then show "select_candidate t = Inr (strip mid)" using candidate_after_first_fence by blast
next
  assume n: "\<not> sublist (lit ''```'') t"
  then have "\<not> sublist (lit ''```json'') t" using fence_in_json_marker by blast
  then show "select_candidate t = Inr t" using n by (simp add: select_candidate_eq)
next
  assume "json_loads env example_json = Inr (JObj [(lit ''merchant'', JStr (lit ''X''))])"
  then show "parse_output env example_output = Inr (JObj [(lit ''merchant'', JStr (lit ''X''))])"
    by (simp add: parse_output_def example_candidate)
next
  assume a: "\<not> sublist (lit ''```'') t \<and> json_loads env t = Inl JSONDecodeError"
  then have "\<not> sublist (lit ''```json'') t" using fence_in_json_marker by blast
  then have "select_candidate t = Inr t" using a by (simp add: select_candidate_eq)
  then show "parse_output env t = Inr JNull" using a by (simp add: parse_output_def)
qed

theorem candidate_selection_witness:
  "select_candidate two_json_blocks = Inr (lit ''[2]'')
   \<and> select_candidate (lit ''see ``` [3] ``` above'') = Inr (lit ''[3]'')
   \<and> select_candidate (lit ''no json here'') = Inr (lit ''no json here'')
   \<and> parse_output (sample_env 2 decode_merchant_x answer_fenced) example_output
       = Inr (JObj [(lit ''merchant'', JStr (lit ''X''))])
   \<and> parse_output (sample_env 2 decode_nothing answer_garbage) (lit ''no json here'') = Inr JNull"
proof -
  have j1: "sublist (lit ''```json'') two_json_blocks"
    by (simp add: two_json_blocks_def lit_def sublist_code(3))
  have d1: "after_last_json_marker two_json_blocks (lit ''```json [1] ``` then '') ((lit '' [2] '') @ (lit ''```''))
            \<and> ends_at_fence (lit '' [2] '') (lit ''```'')"
    by (simp add: two_json_blocks_def after_last_json_marker_def ends_at_fence_def lit_def sublist_code(3))
  have j2: "\<not> sublist (lit ''```json'') (lit ''see ``` [3] ``` above'') \<and> sublist (lit ''```'') (lit ''see ``` [3] ``` above'')"
    by (simp add: lit_def sublist_code(3))
  have d2: "after_first_fence (lit ''see ``` [3] ``` above'') (lit ''see '') ((lit '' [3] '') @ (lit ''``` above''))
            \<and> ends_at_fence (lit '' [3] '') (lit ''``` above'')"
    by (simp add: after_first_fence_def ends_at_fence_def lit_def sublist_code(3))
  have n3: "\<not> sublist (lit ''```'') (lit ''no json here'')" by (simp add: lit_def sublist_code(3))
  have l4: "json_loads (sample_env 2 decode_merchant_x answer_fenced) example_json
              = Inr (JObj [(lit ''merchant'', JStr (lit ''X''))])"
    by (simp add: sample_env_def decode_merchant_x_def example_json_def)
  have n5: "\<not> sublist (lit ''```'') (lit ''no json here'')
            \<and> json_loads (sample_env 2 decode_nothing answer_garbage) (lit ''no json here'')
                = Inl JSONDecodeError"
    using n3 by (simp add: sample_env_def decode_nothing_def)
  note c1 = candidate_selection[of two_json_blocks undefined, THEN conjunct1, THEN mp, OF j1,
              THEN conjunct2, THEN spec, THEN spec, THEN spec, THEN mp, OF d1]
  note c2 = candidate_selection[of "(lit ''see ``` [3] ``` above'')" undefined, THEN conjunct2,
              THEN conjunct1, THEN mp, OF j2,
              THEN conjunct2, THEN spec, THEN spec, THEN spec, THEN mp, OF d2]
  note c3 = candidate_selection[of "(lit ''no json here'')" undefined, THEN conjunct2, THEN conjunct2,
              THEN conjunct1, THEN mp, OF n3]
  note c4 = candidate_selection[of undefined "sample_env 2 decode_merchant_x answer_fenced",
              THEN conjunct2, THEN conjunct2, THEN conjunct2, THEN conjunct1, THEN mp, OF l4]
  note c5 = candidate_selection[of "(lit ''no json here'')" "sample_env 2 decode_nothing answer_garbage",
              THEN conjunct2, THEN conjunct2, THEN conjunct2, THEN conjunct2, THEN mp, OF n5]
  show ?thesis using c1 c2 c3 c4 c5 by (simp add: strip_def is_space_def lit_def)
qed

text \<open>
  C5 as stated, with the content taken between the first JSON-tagged marker and the next
  fence marker, fails on a text with two JSON blocks: the parser takes the last block, and
  it strips the whitespace around it.
\<close>

theorem last_json_block_is_taken:
  "select_candidate two_json_blocks = Inr (lit ''[2]'')
   \<and> spec_candidate two_json_blocks = lit '' [1] ''
   \<and> strip (spec_candidate two_json_blocks) = lit ''[1]''"
  by (simp add: two_json_blocks_def spec_candidate_def select_candidate_def py_index_def py_split_def
        strip_def is_space_def lit_def sublist_code(3))

subsection \<open>C6: the first matching rule wins\<close>

text \<open>
  C6, as amended. For every text, \<^verbatim>\<open>_try_fast_path\<close> returns the metadata of a rule
  (and counts one fast-path hit) exactly when that rule's keyword occurs in the lower-cased
  text, \<^verbatim>\<open>raw_text.lower()\<close>, and no rule before it in \<open>FAST_PATH_MERCHANTS\<close> has a
  keyword that occurs there; it returns nothing exactly when no keyword occurs. Here a
  text contains a keyword when its lower-cased form does. In particular, a parsed object whose
  merchant text contains \<open>lidl\<close> and neither of the two earlier keywords,
  \<open>pingo doce\<close> and \<open>continente\<close>, and whose category and currency are absent, is
  enriched to merchant \<open>Lidl\<close>, category \<open>Supermercado\<close>, currency \<open>EUR\<close>; and a
  parsed object whose merchant text contains no keyword is returned unchanged, as is the
  state.
\<close>

theorem fast_path_first_rule_wins:
  "(try_fast_path env (JStr t) s = (Inr (Some m), s\<lparr>fast_path_hits := fast_path_hits s + 1\<rparr>)
      \<longleftrightarrow> (\<exists>pre key post. FAST_PATH_MERCHANTS = pre @ (key, m) # post \<and> sublist key (lower env t)
             \<and> (\<forall>p\<in>set pre. \<not> sublist (fst p) (lower env t))))
   \<and> (try_fast_path env (JStr t) s = (Inr None, s)
        \<longleftrightarrow> (\<forall>p\<in>set FAST_PATH_MERCHANTS. \<not> sublist (fst p) (lower env t)))
   \<and> (sublist (lit ''lidl'') (lower env t) \<and> \<not> sublist (lit ''pingo doce'') (lower env t)
        \<and> \<not> sublist (lit ''continente'') (lower env t)
        \<and> d \<noteq> [] \<and> map_of d (lit ''merchant'') = Some (JStr t)
        \<and> \<not> truthy (dict_get d (lit ''category'') JNull) \<and> \<not> truthy (dict_get d (lit ''currency'') JNull)
      \<longrightarrow> enrich env (JObj d) s =
            (Inr (JObj (dict_set (dict_set (dict_set d (lit ''merchant'') (JStr (lit ''Lidl'')))
                          (lit ''category'') (JStr (lit ''Supermercado''))) (lit ''currency'') (JStr (lit ''EUR'')))),
             s\<lparr>fast_path_hits := fast_path_hits s + 1\<rparr>))
   \<and> ((\<forall>p\<in>set FAST_PATH_MERCHANTS. \<not> sublist (fst p) (lower env t))
        \<and> dict_get d (lit ''merchant'') (JStr []) = JStr t
      \<longrightarrow> enrich env (JObj d) s = (Inr (JObj d), s))"
proof (intro conjI impI)
  show "try_fast_path env (JStr t) s = (Inr (Some m), s\<lparr>fast_path_hits := fast_path_hits s + 1\<rparr>)
      \<longleftrightarrow> (\<exists>pre key post. FAST_PATH_MERCHANTS = pre @ (key, m) # post \<and> sublist key (lower env t)
             \<and> (\<forall>p\<in>set pre. \<not> sublist (fst p) (lower env t)))"
    unfolding first_match_Some_iff[symmetric]
    by (simp add: try_fast_path_str split: option.splits)
  show "try_fast_path env (JStr t) s = (Inr None, s)
        \<longleftrightarrow> (\<forall>p\<in>set FAST_PATH_MERCHANTS. \<not> sublist (fst p) (lower env t))"
    unfolding first_match_None_iff[symmetric]
    by (simp add: try_fast_path_str split: option.splits)
next
  assume a: "sublist (lit ''lidl'') (lower env t) \<and> \<not> sublist (lit ''pingo doce'') (lower env t)
        \<and> \<not> sublist (lit ''continente'') (lower env t)
        \<and> d \<noteq> [] \<and> map_of d (lit ''merchant'') = Some (JStr t)
        \<and> \<not> truthy (dict_get d (lit ''category'') JNull) \<and> \<not> truthy (dict_get d (lit ''currency'') JNull)"
  then have "first_match (lower env t) FAST_PATH_MERCHANTS =
      Some \<lparr>merchant = lit ''Lidl'', category = lit ''Supermercado'', currency = lit ''EUR''\<rparr>"
    by (simp add: FAST_PATH_MERCHANTS_def)
  then show "enrich env (JObj d) s =
            (Inr (JObj (dict_set (dict_set (dict_set d (lit ''merchant'') (JStr (lit ''Lidl'')))
                          (lit ''category'') (JStr (lit ''Supermercado''))) (lit ''currency'') (JStr (lit ''EUR'')))),
             s\<lparr>fast_path_hits := fast_path_hits s + 1\<rparr>)"
    using a enrich_matched[of d t env _ s] by simp
next
  assume a: "(\<forall>p\<in>set FAST_PATH_MERCHANTS. \<not> sublist (fst p) (lower env t))
        \<and> dict_get d (lit ''merchant'') (JStr []) = JStr t"
  then have "first_match (lower env t) FAST_PATH_MERCHANTS = None"
    by (simp add: first_match_None_iff)
  then show "enrich env (JObj d) s = (Inr (JObj d), s)" using a by (simp add: enrich_unmatched)
qed

theorem fast_path_first_rule_wins_witness:
  "enrich (sample_env 2 decode_nothing answer_garbage) (JObj [(lit ''merchant'', JStr (lit ''LIDL Portugal'')), (lit ''total'', JInt 12)]) init_state =
     (Inr (JObj [(lit ''merchant'', JStr (lit ''Lidl'')), (lit ''total'', JInt 12),
                 (lit ''category'', JStr (lit ''Supermercado'')), (lit ''currency'', JStr (lit ''EUR''))]),
      init_state\<lparr>fast_path_hits := fast_path_hits init_state + 1\<rparr>)
   \<and> try_fast_path (sample_env 2 decode_nothing answer_garbage) (JStr (lit ''Cafe Central'')) init_state = (Inr None, init_state)
   \<and> enrich (sample_env 2 decode_nothing answer_garbage) (JObj [(lit ''merchant'', JStr (lit ''Cafe Central'')), (lit ''total'', JInt 3)]) init_state =
     (Inr (JObj [(lit ''merchant'', JStr (lit ''Cafe Central'')), (lit ''total'', JInt 3)]), init_state)"
proof -
  have lidl: "sublist (lit ''lidl'') (lower (sample_env 2 decode_nothing answer_garbage) (lit ''LIDL Portugal'')) \<and> \<not> sublist (lit ''pingo doce'') (lower (sample_env 2 decode_nothing answer_garbage) (lit ''LIDL Portugal''))
        \<and> \<not> sublist (lit ''continente'') (lower (sample_env 2 decode_nothing answer_garbage) (lit ''LIDL Portugal''))
        \<and> [(lit ''merchant'', JStr (lit ''LIDL Portugal'')), (lit ''total'', JInt 12)] \<noteq> []
        \<and> map_of [(lit ''merchant'', JStr (lit ''LIDL Portugal'')), (lit ''total'', JInt 12)] (lit ''merchant'')
            = Some (JStr (lit ''LIDL Portugal''))
        \<and> \<not> truthy (dict_get [(lit ''merchant'', JStr (lit ''LIDL Portugal'')), (lit ''total'', JInt 12)] (lit ''category'') JNull)
        \<and> \<not> truthy (dict_get [(lit ''merchant'', JStr (lit ''LIDL Portugal'')), (lit ''total'', JInt 12)] (lit ''currency'') JNull)"
    by (simp add: lower_def ascii_lower_def lit_def sublist_code(3) dict_get_def)
  have none: "\<forall>p\<in>set FAST_PATH_MERCHANTS. \<not> sublist (fst p) (lower (sample_env 2 decode_nothing answer_garbage) (lit ''Cafe Central''))"
    by (simp add: FAST_PATH_MERCHANTS_def lower_def ascii_lower_def lit_def sublist_code(3))
  have cafe: "(\<forall>p\<in>set FAST_PATH_MERCHANTS. \<not> sublist (fst p) (lower (sample_env 2 decode_nothing answer_garbage) (lit ''Cafe Central'')))
        \<and> dict_get [(lit ''merchant'', JStr (lit ''Cafe Central'')), (lit ''total'', JInt 3)] (lit ''merchant'') (JStr [])
            = JStr (lit ''Cafe Central'')"
    using none by (simp add: dict_get_def)
  note a = fast_path_first_rule_wins[of "sample_env 2 decode_nothing answer_garbage" "(lit ''LIDL Portugal'')" init_state undefined
          "[(lit ''merchant'', JStr (lit ''LIDL Portugal'')), (lit ''total'', JInt 12)]",
          THEN conjunct2, THEN conjunct2, THEN conjunct1, THEN mp, OF lidl]
  note b = fast_path_first_rule_wins[of "sample_env 2 decode_nothing answer_garbage" "(lit ''Cafe Central'')" init_state undefined
          "[(lit ''merchant'', JStr (lit ''Cafe Central'')), (lit ''total'', JInt 3)]",
          THEN conjunct2, THEN conjunct1, THEN iffD2, OF none]
  note c = fast_path_first_rule_wins[of "sample_env 2 decode_nothing answer_garbage" "(lit ''Cafe Central'')" init_state undefined
          "[(lit ''merchant'', JStr (lit ''Cafe Central'')), (lit ''total'', JInt 3)]",
          THEN conjunct2, THEN conjunct2, THEN conjunct2, THEN mp, OF cafe]
  show ?thesis using a b c by simp
qed

text \<open>
  C6 as stated fails for a merchant text that contains \<open>lidl\<close> after an earlier
  keyword: the earlier rule wins and the merchant becomes \<open>Continente\<close>.
\<close>

theorem earlier_keyword_beats_lidl:
  "sublist (lit ''lidl'') (lower (sample_env 2 decode_nothing answer_garbage) (lit ''Continente Lidl''))
   \<and> enrich (sample_env 2 decode_nothing answer_garbage) (JObj [(lit ''merchant'', JStr (lit ''Continente Lidl''))]) init_state =
       (Inr (JObj [(lit ''merchant'', JStr (lit ''Continente'')), (lit ''category'', JStr (lit ''Supermercado'')),
                   (lit ''currency'', JStr (lit ''EUR''))]),
        init_state\<lparr>fast_path_hits := 1\<rparr>)"
  by (simp add: eval_more)

subsection \<open>C7: enrichment is non-destructive\<close>

text \<open>
  C7. When a rule matches the merchant text of a parsed object, the enriched object has
  the rule's canonical name as merchant; its category is the parsed one when the parsed
  object has a populated category (a truthy value: not missing, null, empty, zero or
  false) and the rule's category otherwise, and likewise for the currency; and every other
  key maps to what it mapped to before. Nothing but the fast-path counter changes in the
  state.
\<close>

theorem enrichment_fills_only_what_is_missing:
  assumes "d \<noteq> []" and "map_of d (lit ''merchant'') = Some (JStr t)"
    and "first_match (lower env t) FAST_PATH_MERCHANTS = Some fm"
  shows "\<exists>d'. enrich env (JObj d) s = (Inr (JObj d'), s\<lparr>fast_path_hits := fast_path_hits s + 1\<rparr>)
     \<and> map_of d' (lit ''merchant'') = Some (JStr (merchant fm))
     \<and> map_of d' (lit ''category'') =
         (if truthy (dict_get d (lit ''category'') JNull) then map_of d (lit ''category'')
          else Some (JStr (category fm)))
     \<and> map_of d' (lit ''currency'') =
         (if truthy (dict_get d (lit ''currency'') JNull) then map_of d (lit ''currency'')
          else Some (JStr (currency fm)))
     \<and> (\<forall>k. k \<noteq> (lit ''merchant'') \<and> k \<noteq> (lit ''category'') \<and> k \<noteq> (lit ''currency'') \<longrightarrow> map_of d' k = map_of d k)"
  using enrich_matched[OF assms, of s]
  by (auto simp: Let_def map_of_dict_set)

theorem enrichment_fills_only_what_is_missing_witness:
  "\<exists>d'. enrich (sample_env 2 decode_nothing answer_garbage) (JObj [(lit ''merchant'', JStr (lit ''LIDL Portugal'')), (lit ''category'', JStr (lit ''Groceries'')),
                       (lit ''total'', JInt 12)]) init_state
          = (Inr (JObj d'), init_state\<lparr>fast_path_hits := fast_path_hits init_state + 1\<rparr>)
     \<and> map_of d' (lit ''merchant'') = Some (JStr (lit ''Lidl''))
     \<and> map_of d' (lit ''category'') = Some (JStr (lit ''Groceries''))
     \<and> map_of d' (lit ''currency'') = Some (JStr (lit ''EUR''))
     \<and> map_of d' (lit ''total'') = Some (JInt 12)"
proof -
  let ?d = "[(lit ''merchant'', JStr (lit ''LIDL Portugal'')), (lit ''category'', JStr (lit ''Groceries'')),
             (lit ''total'', JInt 12)]"
  have ne: "?d \<noteq> []" and m: "map_of ?d (lit ''merchant'') = Some (JStr (lit ''LIDL Portugal''))" by simp_all
  obtain d' where e: "enrich (sample_env 2 decode_nothing answer_garbage) (JObj ?d) init_state
          = (Inr (JObj d'), init_state\<lparr>fast_path_hits := fast_path_hits init_state + 1\<rparr>)"
    and f: "map_of d' (lit ''merchant'') = Some (JStr (lit ''Lidl''))"
      "map_of d' (lit ''category'') = Some (JStr (lit ''Groceries''))"
      "map_of d' (lit ''currency'') = Some (JStr (lit ''EUR''))"
    and rest: "\<forall>k. k \<noteq> (lit ''merchant'') \<and> k \<noteq> (lit ''category'') \<and> k \<noteq> (lit ''currency'') \<longrightarrow> map_of d' k = map_of ?d k"
    using enrichment_fills_only_what_is_missing[OF ne m lidl_first_match,
            of "sample_env 2 decode_nothing answer_garbage" init_state]
    by (auto simp: dict_get_def)
  have "map_of d' (lit ''total'') = Some (JInt 12)" using rest[THEN spec, of "(lit ''total'')"] by simp
  then show ?thesis using e f by blast
qed

subsection \<open>C8: the errors of extract\<close>

text \<open>
  C8, as amended. \<open>extract\<close> fails with HTTP 503 exactly when the model is not loaded; it
  fails with HTTP 400 exactly when the model is loaded and the image field cannot be
  base64-decoded (the readiness check comes first); and model output that
  \<^verbatim>\<open>json.loads\<close> rejects with a JSONDecodeError raises nothing: when the model is loaded,
  the image decodes to bytes that are not cached, the temporary file is written and
  removed, the model answers, and \<^verbatim>\<open>json.loads\<close> raises JSONDecodeError on the
  candidate string selected from the answer, the call returns status \<open>ok\<close>, a null
  extraction and the model's text unchanged as raw text.
\<close>

theorem extract_error_statuses:
  "((\<exists>m. fst (extract_endpoint env req s) = Inl (HTTPException 503 m)) \<longleftrightarrow> \<not> model_loaded s)
   \<and> ((\<exists>m. fst (extract_endpoint env req s) = Inl (HTTPException 400 m))
        \<longleftrightarrow> model_loaded s \<and> b64decode env (image req) = None)
   \<and> (model_loaded s \<and> b64decode env (image req) = Some b
        \<and> map_of (content_cache s) (sha256 env b) = None
        \<and> file_suffix req = Inr sfx \<and> write_temp_file env (model_calls s) sfx b = Inr path
        \<and> unlink env (model_calls s) path = None
        \<and> generate_from_image env (model_calls s) path b (effective_prompt env req) (max_tokens req)
            = Some raw
        \<and> select_candidate (raw_text_of raw) = Inr c \<and> json_loads env c = Inl JSONDecodeError
      \<longrightarrow> extract_endpoint env req s =
            (Inr \<lparr>status = lit ''ok'', extraction = JNull, raw_text = raw_text_of raw,
                  stats = \<lparr>generation_time_s = raw_generation_time_s raw,
                           tokens_per_second = raw_tokens_per_second raw,
                           peak_memory_gb = raw_peak_memory_gb raw\<rparr>,
                  cache = lit ''miss'', content_hash = take 16 (sha256 env b)\<rparr>,
             s\<lparr>model_calls := Suc (model_calls s)\<rparr>))"
proof (intro conjI impI)
  show "(\<exists>m. fst (extract_endpoint env req s) = Inl (HTTPException 503 m)) \<longleftrightarrow> \<not> model_loaded s"
    using extract_miss_no_http[of env req _ _ s 503]
    by (auto simp: extract_endpoint_unf split: option.splits)
  show "(\<exists>m. fst (extract_endpoint env req s) = Inl (HTTPException 400 m))
        \<longleftrightarrow> model_loaded s \<and> b64decode env (image req) = None"
    using extract_miss_no_http[of env req _ _ s 400]
    by (auto simp: extract_endpoint_unf split: option.splits)
next
  assume a: "model_loaded s \<and> b64decode env (image req) = Some b
        \<and> map_of (content_cache s) (sha256 env b) = None
        \<and> file_suffix req = Inr sfx \<and> write_temp_file env (model_calls s) sfx b = Inr path
        \<and> unlink env (model_calls s) path = None
        \<and> generate_from_image env (model_calls s) path b (effective_prompt env req) (max_tokens req)
            = Some raw
        \<and> select_candidate (raw_text_of raw) = Inr c \<and> json_loads env c = Inl JSONDecodeError"
  then have po: "parse_output env (raw_text_of raw) = Inr JNull" by (simp add: parse_output_def)
  have "extract_body env req b (sha256 env b) path s =
          (Inr (tagged (make_result raw JNull) (lit ''miss'') (sha256 env b)), s\<lparr>model_calls := Suc (model_calls s)\<rparr>)"
    using a po unfolding extract_body_def Let_def by (simp add: enrich_null)
  then have "extract_miss env req b (sha256 env b) s =
          (Inr (tagged (make_result raw JNull) (lit ''miss'') (sha256 env b)), s\<lparr>model_calls := Suc (model_calls s)\<rparr>)"
    using a by (simp add: extract_miss_def)
  then show "extract_endpoint env req s =
            (Inr \<lparr>status = lit ''ok'', extraction = JNull, raw_text = raw_text_of raw,
                  stats = \<lparr>generation_time_s = raw_generation_time_s raw,
                           tokens_per_second = raw_tokens_per_second raw,
                           peak_memory_gb = raw_peak_memory_gb raw\<rparr>,
                  cache = lit ''miss'', content_hash = take 16 (sha256 env b)\<rparr>,
             s\<lparr>model_calls := Suc (model_calls s)\<rparr>)"
    using a by (simp add: extract_endpoint_unf tagged_def make_result_def)
qed

theorem extract_error_statuses_witness:
  "(\<exists>m. fst (extract_endpoint (sample_env 2 decode_nothing answer_garbage) sample_request
            (init_state\<lparr>model_loaded := False\<rparr>)) = Inl (HTTPException 503 m))
   \<and> (\<exists>m. fst (extract_endpoint (sample_env 2 decode_nothing answer_garbage) undecodable_request
            init_state) = Inl (HTTPException 400 m))
   \<and> extract_endpoint (sample_env 2 decode_nothing answer_garbage) sample_request init_state =
       (Inr \<lparr>status = lit ''ok'', extraction = JNull, raw_text = lit ''Sorry, I cannot read this receipt.'',
           stats = \<lparr>generation_time_s = 1, tokens_per_second = None, peak_memory_gb = None\<rparr>,
           cache = lit ''miss'', content_hash = lit ''039058c6f2c0cb49''\<rparr>,
        init_state\<lparr>model_calls := 1\<rparr>)"
proof -
  let ?env = "sample_env 2 decode_nothing answer_garbage"
  let ?raw = "\<lparr>raw_text_of = lit ''Sorry, I cannot read this receipt.'', raw_generation_time_s = 1,
              raw_tokens_per_second = None, raw_peak_memory_gb = None\<rparr>"
  have f: "file_suffix sample_request = Inr (lit ''.jpg'')"
    by (simp add: file_suffix_def sample_request_def py_index_def py_split_def py_replace_def lit_def)
  have c: "select_candidate (lit ''Sorry, I cannot read this receipt.'')
             = Inr (lit ''Sorry, I cannot read this receipt.'')"
    by (simp add: select_candidate_eq sublist_code(3))
  have h1: "\<not> model_loaded (init_state\<lparr>model_loaded := False\<rparr>)" by simp
  have h2: "model_loaded init_state \<and> b64decode ?env (image undecodable_request) = None"
    by (simp add: init_state_def sample_env_def undecodable_request_def)
  have h3: "model_loaded init_state \<and> b64decode ?env (image sample_request) = Some [1, 2, 3]
        \<and> map_of (content_cache init_state) (sha256 ?env [1, 2, 3]) = None
        \<and> file_suffix sample_request = Inr (lit ''.jpg'')
        \<and> write_temp_file ?env (model_calls init_state) (lit ''.jpg'') [1, 2, 3]
            = Inr (lit ''/tmp/tmpq3x8k2vd'' @ lit ''.jpg'')
        \<and> unlink ?env (model_calls init_state) (lit ''/tmp/tmpq3x8k2vd'' @ lit ''.jpg'') = None
        \<and> generate_from_image ?env (model_calls init_state) (lit ''/tmp/tmpq3x8k2vd'' @ lit ''.jpg'')
              [1, 2, 3] (effective_prompt ?env sample_request) (max_tokens sample_request)
            = Some ?raw
        \<and> select_candidate (raw_text_of ?raw) = Inr (lit ''Sorry, I cannot read this receipt.'')
        \<and> json_loads ?env (lit ''Sorry, I cannot read this receipt.'') = Inl JSONDecodeError"
    using f c by (simp add: init_state_def sample_env_def sample_request_def decode_nothing_def
        answer_garbage_def)
  note w1 = extract_error_statuses[of ?env sample_request "init_state\<lparr>model_loaded := False\<rparr>",
      THEN conjunct1, THEN iffD2, OF h1]
  note w2 = extract_error_statuses[of ?env undecodable_request init_state,
      THEN conjunct2, THEN conjunct1, THEN iffD2, OF h2]
  note w3 = extract_error_statuses[of ?env sample_request init_state,
      THEN conjunct2, THEN conjunct2, THEN mp, OF h3]
  have "take 16 (sha256 ?env [1, 2, 3]) = lit ''039058c6f2c0cb49''"
    by (simp add: sample_env_def lit_def)
  then show ?thesis using w1 w2 w3 by (simp add: init_state_def)
qed

text \<open>
  C8 as stated fails for a request whose image cannot be decoded while the model is not
  loaded: the answer is 503, not 400.
\<close>

theorem not_loaded_wins_over_bad_base64:
  "b64decode (sample_env 2 decode_nothing answer_garbage) (image undecodable_request) = None
   \<and> extract_endpoint (sample_env 2 decode_nothing answer_garbage) undecodable_request
        (init_state\<lparr>model_loaded := False\<rparr>) =
       (Inl (HTTPException 503 (lit ''Model not loaded'')), init_state\<lparr>model_loaded := False\<rparr>)"
  by (simp add: eval_more)

subsection \<open>C9: decoded values that are not the expected object\<close>

text \<open>
  C9. A value that is not an object is returned and cached unchanged, as
  \<open>non_object_value_is_returned_and_cached\<close> shows, but not every non-null decoded value
  is cached. The model answers \<^verbatim>\<open>{"merchant": 123}\<close>, which decodes to an object, a
  non-null value. Its merchant is a truthy value that is not a string, so
  \<^verbatim>\<open>_try_fast_path\<close> raises AttributeError on \<^verbatim>\<open>raw_text.lower()\<close>: the request
  fails, and nothing is returned or cached.
\<close>

theorem numeric_merchant_raises:
  "parse_output (sample_env 2 decode_numeric_merchant answer_numeric_merchant) (answer_numeric_merchant 0)
     = Inr (JObj [(lit ''merchant'', JInt 123)])
   \<and> extract_endpoint (sample_env 2 decode_numeric_merchant answer_numeric_merchant) sample_request init_state
     = (Inl (Uncaught AttributeError), init_state\<lparr>model_calls := 1\<rparr>)"
  by (simp add: eval_more)

subsection \<open>C10: the health endpoint never divides by zero\<close>

text \<open>
  C10. The divisor of the hit rate is \<open>max 1 (hits + misses)\<close>, which is never zero, and
  the quotient lies between 0 and 1, so it is not too large for a float either: for every
  state (whatever the counters hold) \<open>health\<close> returns its response and raises nothing;
  the response is the one written out below. When both counters are zero the reported hit
  rate is 0.
\<close>

theorem health_never_divides_by_zero:
  "max 1 (cache_hits s + cache_misses s) \<noteq> 0
   \<and> health env s =
       Inr \<lparr>hr_status = lit ''ok'', hr_role = lit ''ocr-only'', hr_model = MODEL_ID env,
            hr_load_time_s = py_round (load_time s) 2, hr_ready = model_loaded s,
            hr_cache = \<lparr>cr_size = int (length (content_cache s)),
                        cr_max_size = MAX_CACHE_SIZE env,
                        cr_hits = cache_hits s, cr_misses = cache_misses s,
                        cr_fast_path_hits = fast_path_hits s,
                        cr_hit_rate =
                          py_round (nearest_double (of_nat (cache_hits s)
                                      / of_nat (max 1 (cache_hits s + cache_misses s)))) 3\<rparr>\<rparr>
   \<and> map_sum id (\<lambda>r. cr_hit_rate (hr_cache r))
         (health env (s\<lparr>cache_hits := 0, cache_misses := 0\<rparr>)) = Inr 0"
proof -
  have d: "py_truediv (int a) (int (max 1 (a + b)))
             = Inr (nearest_double (of_nat a / of_nat (max 1 (a + b))))" for a b :: nat
    using py_truediv_unit[of "int a" "int (max 1 (a + b))"] by simp
  have "max 1 (cache_hits s + cache_misses s) \<noteq> 0" by simp
  moreover have "health env s =
       Inr \<lparr>hr_status = lit ''ok'', hr_role = lit ''ocr-only'', hr_model = MODEL_ID env,
            hr_load_time_s = py_round (load_time s) 2, hr_ready = model_loaded s,
            hr_cache = \<lparr>cr_size = int (length (content_cache s)),
                        cr_max_size = MAX_CACHE_SIZE env,
                        cr_hits = cache_hits s, cr_misses = cache_misses s,
                        cr_fast_path_hits = fast_path_hits s,
                        cr_hit_rate =
                          py_round (nearest_double (of_nat (cache_hits s)
                                      / of_nat (max 1 (cache_hits s + cache_misses s)))) 3\<rparr>\<rparr>"
    unfolding health_def d by simp
  moreover have "map_sum id (\<lambda>r. cr_hit_rate (hr_cache r))
         (health env (s\<lparr>cache_hits := 0, cache_misses := 0\<rparr>)) = Inr 0"
    unfolding health_def using d[of 0 0] by (simp add: nearest_double_0 py_round_0)
  ultimately show ?thesis by (intro conjI)
qed

end
